theory Spec2Isabelle
  imports Complex_Main "HOL-Library.Product_Lexorder"
begin

section \<open>Conventions of the embedding\<close>

text \<open>
  The C++ sources \<^verbatim>\<open>types.hpp\<close> and \<^verbatim>\<open>interaction_matrix.hpp\<close> are embedded as follows.

  \<^item> \<^verbatim>\<open>float\<close> and \<^verbatim>\<open>double\<close> values are idealised as \<^typ>\<open>real\<close>: rounding, the
    narrowing cast \<^verbatim>\<open>(float)val\<close>, NaN and the infinities are outside the model
    (in particular \<^verbatim>\<open>298.15 / temperature\<close> is the real quotient).
  \<^item> \<^verbatim>\<open>unsigned short\<close> values are \<^typ>\<open>nat\<close>; no arithmetic is done on them.
  \<^item> \<^verbatim>\<open>int\<close> values are \<^typ>\<open>int\<close> (the sentinels \<^verbatim>\<open>-1\<close> of the source are kept);
    container sizes are taken to fit an \<^verbatim>\<open>int\<close>.
  \<^item> \<^verbatim>\<open>std::vector\<close> and the fixed arrays \<^verbatim>\<open>int[7]\<close> are lists. An access outside
    the bounds (undefined behaviour in C++) is the error value \<open>OutOfBounds\<close>.
  \<^item> \<^verbatim>\<open>throw std::runtime_error(msg)\<close> is the error value \<open>RuntimeError msg\<close>.
\<close>

datatype error = OutOfBounds | RuntimeError string

definition ebind :: "error + 'a \<Rightarrow> ('a \<Rightarrow> error + 'b) \<Rightarrow> error + 'b" where
  "ebind m f = (case m of Inl e \<Rightarrow> Inl e | Inr v \<Rightarrow> f v)"

text \<open>\<^verbatim>\<open>vec[i]\<close> for an \<^verbatim>\<open>int\<close> index, bounds-checked.\<close>

definition vget :: "'a list \<Rightarrow> int \<Rightarrow> error + 'a" where
  "vget xs i = (if 0 \<le> i \<and> i < int (length xs) then Inr (xs ! nat i) else Inl OutOfBounds)"

text \<open>\<^verbatim>\<open>vec[i] = v\<close> for an \<^verbatim>\<open>int\<close> index, bounds-checked.\<close>

definition vset :: "'a list \<Rightarrow> int \<Rightarrow> 'a \<Rightarrow> error + 'a list" where
  "vset xs i v = (if 0 \<le> i \<and> i < int (length xs) then Inr (xs[nat i := v]) else Inl OutOfBounds)"

text \<open>The index range of \<^verbatim>\<open>for (int i = 0; i < n; i++)\<close>.\<close>

definition indices :: "nat \<Rightarrow> int list" where
  "indices n = map int [0..<n]"

section \<open>\<^verbatim>\<open>struct segmentTypeCollection\<close> (types.hpp)\<close>

record segmentTypeCollection =
  SegmentTypeAreasRowTemplate :: "real list"
  lowerBoundIndexForGroup :: "int list"
  upperBoundIndexForGroup :: "int list"
  numberOfSegmentsForGroup :: "int list"
  SegmentTypeAreas :: "real list list"
  SegmentTypeGroup :: "nat list"
  SegmentTypeSigma :: "real list"
  SegmentTypeSigmaCorr :: "real list"
  SegmentTypeHBtype :: "nat list"
  SegmentTypeAtomicNumber :: "nat list"

text \<open>
  \<^verbatim>\<open>segmentTypeCollection(int numberOfMolecules)\<close>: the row template gets one \<^verbatim>\<open>0.0\<close>
  per molecule (none when the argument is not positive); the three \<^verbatim>\<open>int[7]\<close> arrays
  are zero-initialised and the vectors are empty.
\<close>

definition segmentTypeCollection_n :: "int \<Rightarrow> segmentTypeCollection" where
  "segmentTypeCollection_n numberOfMolecules =
     \<lparr> SegmentTypeAreasRowTemplate = replicate (nat numberOfMolecules) 0,
       lowerBoundIndexForGroup = replicate 7 0,
       upperBoundIndexForGroup = replicate 7 0,
       numberOfSegmentsForGroup = replicate 7 0,
       SegmentTypeAreas = [],
       SegmentTypeGroup = [],
       SegmentTypeSigma = [],
       SegmentTypeSigmaCorr = [],
       SegmentTypeHBtype = [],
       SegmentTypeAtomicNumber = [] \<rparr>"

text \<open>
  \<^verbatim>\<open>segmentTypeCollection() { segmentTypeCollection(1); }\<close>: the body constructs a
  temporary object and discards it; the members of the object under construction keep
  their default initialisation, so its row template is the empty vector.
\<close>

definition segmentTypeCollection_default :: segmentTypeCollection where
  "segmentTypeCollection_default =
     \<lparr> SegmentTypeAreasRowTemplate = [],
       lowerBoundIndexForGroup = replicate 7 0,
       upperBoundIndexForGroup = replicate 7 0,
       numberOfSegmentsForGroup = replicate 7 0,
       SegmentTypeAreas = [],
       SegmentTypeGroup = [],
       SegmentTypeSigma = [],
       SegmentTypeSigmaCorr = [],
       SegmentTypeHBtype = [],
       SegmentTypeAtomicNumber = [] \<rparr>"

text \<open>\<^verbatim>\<open>size()\<close> returns \<^verbatim>\<open>SegmentTypeHBtype.size()\<close>.\<close>

definition size_segments :: "segmentTypeCollection \<Rightarrow> nat" where
  "size_segments c = length (SegmentTypeHBtype c)"

definition clear :: "segmentTypeCollection \<Rightarrow> segmentTypeCollection" where
  "clear c = c \<lparr> SegmentTypeAreas := [], SegmentTypeGroup := [], SegmentTypeSigma := [],
                 SegmentTypeSigmaCorr := [], SegmentTypeHBtype := [],
                 SegmentTypeAtomicNumber := [] \<rparr>"

subsection \<open>\<^verbatim>\<open>add\<close>\<close>

text \<open>
  The condition of the search loop of \<^verbatim>\<open>add\<close>: a chain of \<^verbatim>\<open>&&\<close>, so an array is read
  only when all comparisons before it succeeded.
\<close>

definition add_match ::
  "segmentTypeCollection \<Rightarrow> nat \<Rightarrow> real \<Rightarrow> real \<Rightarrow> nat \<Rightarrow> nat \<Rightarrow> int \<Rightarrow> error + bool" where
  "add_match c grp sigma sigmaCorr HBtype atomicNumber i =
     ebind (vget (SegmentTypeGroup c) i) (\<lambda>g. if g \<noteq> grp then Inr False else
     ebind (vget (SegmentTypeHBtype c) i) (\<lambda>h. if h \<noteq> HBtype then Inr False else
     ebind (vget (SegmentTypeSigma c) i) (\<lambda>s. if s \<noteq> sigma then Inr False else
     ebind (vget (SegmentTypeSigmaCorr c) i) (\<lambda>sc. if sc \<noteq> sigmaCorr then Inr False else
     ebind (vget (SegmentTypeAtomicNumber c) i) (\<lambda>a. Inr (a = atomicNumber))))))"

text \<open>
  The search loop over the remaining indices: \<^verbatim>\<open>index\<close> stays \<^verbatim>\<open>-1\<close> unless an entry
  matches, and the first match leaves the loop (\<^verbatim>\<open>break\<close>).
\<close>

fun add_search ::
  "segmentTypeCollection \<Rightarrow> nat \<Rightarrow> real \<Rightarrow> real \<Rightarrow> nat \<Rightarrow> nat \<Rightarrow> int list \<Rightarrow> error + int" where
  "add_search c grp sigma sigmaCorr HBtype atomicNumber [] = Inr (- 1)"
| "add_search c grp sigma sigmaCorr HBtype atomicNumber (i # rest) =
     ebind (add_match c grp sigma sigmaCorr HBtype atomicNumber i)
       (\<lambda>found. if found then Inr i
                else add_search c grp sigma sigmaCorr HBtype atomicNumber rest)"

text \<open>The five \<^verbatim>\<open>push_back\<close> calls and the copy of the row template.\<close>

definition add_append ::
  "segmentTypeCollection \<Rightarrow> nat \<Rightarrow> real \<Rightarrow> real \<Rightarrow> nat \<Rightarrow> nat \<Rightarrow> segmentTypeCollection" where
  "add_append c grp sigma sigmaCorr HBtype atomicNumber =
     c \<lparr> SegmentTypeGroup := SegmentTypeGroup c @ [grp],
         SegmentTypeHBtype := SegmentTypeHBtype c @ [HBtype],
         SegmentTypeSigma := SegmentTypeSigma c @ [sigma],
         SegmentTypeSigmaCorr := SegmentTypeSigmaCorr c @ [sigmaCorr],
         SegmentTypeAtomicNumber := SegmentTypeAtomicNumber c @ [atomicNumber],
         SegmentTypeAreas := SegmentTypeAreas c @ [SegmentTypeAreasRowTemplate c] \<rparr>"

text \<open>\<^verbatim>\<open>SegmentTypeAreas[index][ind_molecule] += Area\<close>, both accesses bounds-checked.\<close>

definition add_area ::
  "segmentTypeCollection \<Rightarrow> int \<Rightarrow> nat \<Rightarrow> real \<Rightarrow> error + segmentTypeCollection" where
  "add_area c index ind_molecule Area =
     ebind (vget (SegmentTypeAreas c) index) (\<lambda>row.
     ebind (vget row (int ind_molecule)) (\<lambda>old.
       Inr (c \<lparr> SegmentTypeAreas :=
                  (SegmentTypeAreas c)[nat index := row[ind_molecule := old + Area]] \<rparr>)))"

definition add ::
  "segmentTypeCollection \<Rightarrow> nat \<Rightarrow> nat \<Rightarrow> real \<Rightarrow> real \<Rightarrow> nat \<Rightarrow> nat \<Rightarrow> real
     \<Rightarrow> error + segmentTypeCollection" where
  "add c ind_molecule grp sigma sigmaCorr HBtype atomicNumber Area =
     (if Area = 0 then Inr c
      else
        ebind (add_search c grp sigma sigmaCorr HBtype atomicNumber
                 (indices (length (SegmentTypeHBtype c))))
          (\<lambda>index.
             if index = - 1
             then (let c' = add_append c grp sigma sigmaCorr HBtype atomicNumber
                   in add_area c' (int (length (SegmentTypeHBtype c')) - 1) ind_molecule Area)
             else add_area c index ind_molecule Area))"

subsection \<open>\<^verbatim>\<open>apply_vector_permutation_in_place\<close>\<close>

text \<open>\<^verbatim>\<open>std::swap(vec[a], vec[b])\<close>, both accesses bounds-checked.\<close>

definition vswap :: "'a list \<Rightarrow> int \<Rightarrow> int \<Rightarrow> error + 'a list" where
  "vswap xs a b =
     ebind (vget xs a) (\<lambda>x. ebind (vget xs b) (\<lambda>y.
     ebind (vset xs a y) (\<lambda>xs'. vset xs' b x)))"

text \<open>
  The inner loop \<^verbatim>\<open>while (i != j) { swap(vec[prev_j], vec[j]); done[j] = true;
  prev_j = j; j = p[j]; }\<close>. Nothing in the loop itself bounds the number of
  iterations, so the result is an \<open>option\<close>: \<open>None\<close> stands for a loop that runs forever.
\<close>

partial_function (option) permutation_cycle ::
  "int list \<Rightarrow> int \<Rightarrow> 'a list \<Rightarrow> bool list \<Rightarrow> int \<Rightarrow> int \<Rightarrow> (error + 'a list \<times> bool list) option" where
  "permutation_cycle p i vec done prev_j j =
     (if i \<noteq> j then
        (case vswap vec prev_j j of
           Inl e \<Rightarrow> Some (Inl e)
         | Inr vec' \<Rightarrow>
             (case vset done j True of
                Inl e \<Rightarrow> Some (Inl e)
              | Inr done' \<Rightarrow>
                  (case vget p j of
                     Inl e \<Rightarrow> Some (Inl e)
                   | Inr j' \<Rightarrow> permutation_cycle p i vec' done' j j')))
      else Some (Inr (vec, done)))"

declare permutation_cycle.simps [code]

text \<open>The outer loop \<^verbatim>\<open>for (int i = 0; i < vec.size(); ++i)\<close> over the remaining indices.\<close>

fun permutation_loop ::
  "int list \<Rightarrow> int list \<Rightarrow> 'a list \<Rightarrow> bool list \<Rightarrow> (error + 'a list) option" where
  "permutation_loop p [] vec done = Some (Inr vec)"
| "permutation_loop p (i # rest) vec done =
     (case vget done i of
        Inl e \<Rightarrow> Some (Inl e)
      | Inr d \<Rightarrow>
          if d then permutation_loop p rest vec done
          else
            (case vset done i True of
               Inl e \<Rightarrow> Some (Inl e)
             | Inr done1 \<Rightarrow>
                 (case vget p i of
                    Inl e \<Rightarrow> Some (Inl e)
                  | Inr j \<Rightarrow>
                      (case permutation_cycle p i vec done1 i j of
                         None \<Rightarrow> None
                       | Some (Inl e) \<Rightarrow> Some (Inl e)
                       | Some (Inr (vec', done')) \<Rightarrow> permutation_loop p rest vec' done'))))"

definition apply_vector_permutation_in_place ::
  "'a list \<Rightarrow> int list \<Rightarrow> (error + 'a list) option" where
  "apply_vector_permutation_in_place vec p =
     permutation_loop p (indices (length vec)) vec (replicate (length vec) False)"

subsection \<open>\<^verbatim>\<open>get_permutation_vector\<close>\<close>

text \<open>The comparison lambda handed to \<^verbatim>\<open>std::sort\<close>; its reads are not bounds-checked.\<close>

definition permutation_less :: "segmentTypeCollection \<Rightarrow> int \<Rightarrow> int \<Rightarrow> bool" where
  "permutation_less c i j =
     (if SegmentTypeGroup c ! nat i \<noteq> SegmentTypeGroup c ! nat j
      then SegmentTypeGroup c ! nat i < SegmentTypeGroup c ! nat j
      else if (SegmentTypeGroup c ! nat i = 3 \<or> SegmentTypeGroup c ! nat i = 5) \<and>
              SegmentTypeAtomicNumber c ! nat i \<noteq> SegmentTypeAtomicNumber c ! nat j
      then SegmentTypeAtomicNumber c ! nat i < SegmentTypeAtomicNumber c ! nat j
      else if SegmentTypeSigma c ! nat i \<noteq> SegmentTypeSigma c ! nat j
      then SegmentTypeSigma c ! nat i < SegmentTypeSigma c ! nat j
      else if SegmentTypeSigmaCorr c ! nat i \<noteq> SegmentTypeSigmaCorr c ! nat j
      then SegmentTypeSigmaCorr c ! nat i < SegmentTypeSigmaCorr c ! nat j
      else if SegmentTypeHBtype c ! nat i \<noteq> SegmentTypeHBtype c ! nat j
      then SegmentTypeHBtype c ! nat i < SegmentTypeHBtype c ! nat j
      else if SegmentTypeAtomicNumber c ! nat i \<noteq> SegmentTypeAtomicNumber c ! nat j
      then SegmentTypeAtomicNumber c ! nat i < SegmentTypeAtomicNumber c ! nat j
      else i < j)"

text \<open>
  \<^verbatim>\<open>std::sort\<close> is library code: the standard fixes its result (a rearrangement of the
  range that is ordered by the comparison) but not its algorithm. The comparison above
  ends with \<^verbatim>\<open>i < j\<close> on the indices themselves, so it is a strict linear order on
  distinct indices and the ordered rearrangement is unique; insertion sort computes it.
\<close>

fun insert_sorted :: "('a \<Rightarrow> 'a \<Rightarrow> bool) \<Rightarrow> 'a \<Rightarrow> 'a list \<Rightarrow> 'a list" where
  "insert_sorted cmp x [] = [x]"
| "insert_sorted cmp x (y # ys) =
     (if cmp x y then x # y # ys else y # insert_sorted cmp x ys)"

definition std_sort :: "('a \<Rightarrow> 'a \<Rightarrow> bool) \<Rightarrow> 'a list \<Rightarrow> 'a list" where
  "std_sort cmp xs = foldr (insert_sorted cmp) xs []"

text \<open>
  \<^verbatim>\<open>p\<close> has one entry per element of \<^verbatim>\<open>SegmentTypeGroup\<close>, filled by \<^verbatim>\<open>std::iota\<close> with
  \<^verbatim>\<open>0, 1, ...\<close> and then sorted. The comparison reads five vectors at the indices in
  \<^verbatim>\<open>p\<close> without a check; the embedding reports \<open>OutOfBounds\<close> when one of them is too
  short for those indices.
\<close>

definition get_permutation_vector :: "segmentTypeCollection \<Rightarrow> error + int list" where
  "get_permutation_vector c =
     (let n = length (SegmentTypeGroup c) in
      if n \<le> length (SegmentTypeAtomicNumber c) \<and> n \<le> length (SegmentTypeSigma c) \<and>
         n \<le> length (SegmentTypeSigmaCorr c) \<and> n \<le> length (SegmentTypeHBtype c)
      then Inr (std_sort (permutation_less c) (indices n))
      else Inl OutOfBounds)"

subsection \<open>\<^verbatim>\<open>sort\<close>\<close>

text \<open>
  The scan for group transitions: \<^verbatim>\<open>temporaryindex\<close> starts at \<^verbatim>\<open>-1\<close>; at an index whose
  group differs from it, the upper bound of the group left (if any) and the lower bound
  of the group entered are written.
\<close>

fun group_scan ::
  "nat list \<Rightarrow> int list \<Rightarrow> int \<Rightarrow> int list \<Rightarrow> int list \<Rightarrow> error + int \<times> int list \<times> int list" where
  "group_scan groups [] temporaryindex lower upper = Inr (temporaryindex, lower, upper)"
| "group_scan groups (i # rest) temporaryindex lower upper =
     ebind (vget groups i) (\<lambda>g.
       if temporaryindex \<noteq> int g then
         ebind (if temporaryindex \<noteq> - 1 then vset upper temporaryindex i else Inr upper)
           (\<lambda>upper'.
         ebind (vset lower (int g) i) (\<lambda>lower'.
           group_scan groups rest (int g) lower' upper'))
       else group_scan groups rest temporaryindex lower upper)"

text \<open>
  \<^verbatim>\<open>numberOfSegmentsForGroup[i] = std::max(upperBoundIndexForGroup[i] -
  lowerBoundIndexForGroup[i], 0)\<close> for \<^verbatim>\<open>i = 0, ..., 6\<close>.
\<close>

fun group_counts :: "int list \<Rightarrow> int list \<Rightarrow> int list \<Rightarrow> int list \<Rightarrow> error + int list" where
  "group_counts [] lower upper counts = Inr counts"
| "group_counts (i # rest) lower upper counts =
     ebind (vget upper i) (\<lambda>u. ebind (vget lower i) (\<lambda>l.
     ebind (vset counts i (max (u - l) 0)) (\<lambda>counts'.
       group_counts rest lower upper counts')))"

text \<open>The part of \<^verbatim>\<open>sort\<close> after the six permutations.\<close>

definition sort_bounds :: "segmentTypeCollection \<Rightarrow> error + segmentTypeCollection" where
  "sort_bounds c =
     ebind (group_scan (SegmentTypeGroup c) (indices (size_segments c)) (- 1)
              (lowerBoundIndexForGroup c) (upperBoundIndexForGroup c))
       (\<lambda>(temporaryindex, lower, upper).
     ebind (vset upper temporaryindex (int (size_segments c))) (\<lambda>upper'.
     ebind (group_counts (indices 7) lower upper' (numberOfSegmentsForGroup c)) (\<lambda>counts.
       Inr (c \<lparr> lowerBoundIndexForGroup := lower, upperBoundIndexForGroup := upper',
                 numberOfSegmentsForGroup := counts \<rparr>))))"

text \<open>Sequencing of steps that may fail or, for the permutation, not return.\<close>

definition obind :: "(error + 'a) option \<Rightarrow> ('a \<Rightarrow> (error + 'b) option) \<Rightarrow> (error + 'b) option" where
  "obind m f = (case m of None \<Rightarrow> None | Some (Inl e) \<Rightarrow> Some (Inl e) | Some (Inr v) \<Rightarrow> f v)"

text \<open>
  The method \<^verbatim>\<open>sort\<close>, named \<open>sort_segments\<close> here since \<open>sort\<close> is a function on lists
  in HOL: the permutation vector, the six vectors rearranged by it in the order of the
  source, then the bounds. The result is \<open>None\<close> when a rearrangement does not return.
\<close>

definition sort_segments :: "segmentTypeCollection \<Rightarrow> (error + segmentTypeCollection) option" where
  "sort_segments c =
     obind (Some (get_permutation_vector c)) (\<lambda>p.
     obind (apply_vector_permutation_in_place (SegmentTypeGroup c) p) (\<lambda>groups.
     obind (apply_vector_permutation_in_place (SegmentTypeSigma c) p) (\<lambda>sigmas.
     obind (apply_vector_permutation_in_place (SegmentTypeSigmaCorr c) p) (\<lambda>sigmaCorrs.
     obind (apply_vector_permutation_in_place (SegmentTypeHBtype c) p) (\<lambda>hbTypes.
     obind (apply_vector_permutation_in_place (SegmentTypeAtomicNumber c) p) (\<lambda>atomicNumbers.
     obind (apply_vector_permutation_in_place (SegmentTypeAreas c) p) (\<lambda>areas.
       Some (sort_bounds
         (c \<lparr> SegmentTypeGroup := groups, SegmentTypeSigma := sigmas,
               SegmentTypeSigmaCorr := sigmaCorrs, SegmentTypeHBtype := hbTypes,
               SegmentTypeAtomicNumber := atomicNumbers, SegmentTypeAreas := areas \<rparr>)))))))))"

section \<open>\<^verbatim>\<open>calculateInteractionMatrix\<close> (interaction_matrix.hpp)\<close>

text \<open>The fields of \<^verbatim>\<open>struct parameters\<close> that the function reads.\<close>

record parameters =
  sw_misfit :: int
  sw_useSegmentReferenceStateForInteractionMatrix :: int
  sw_calculateContactStatisticsAndAdditionalProperties :: int
  numberOfPartialInteractionMatrices :: int
  Aeff :: real
  alpha :: real
  CHB :: real
  CHBT :: real
  SigmaHB :: real
  fCorr :: real

text \<open>
  An Eigen matrix is a store from (row, column) to its coefficient; \<^verbatim>\<open>A_int(j, i)\<close> is
  \<open>A_int (j, i)\<close>. The matrices belong to the caller, who sizes them before the call;
  their dimensions are not part of the model.
\<close>

type_synonym matrix = "int \<times> int \<Rightarrow> real"

definition misfit_prefactor :: "parameters \<Rightarrow> real" where
  "misfit_prefactor param = Aeff param * alpha param * 5950000 * 0.5"

definition CHB_T :: "parameters \<Rightarrow> real \<Rightarrow> real" where
  "CHB_T param temperature =
     (let buffdb1 = 1 - CHBT param + CHBT param * (298.15 / temperature)
      in if buffdb1 > 0 then CHB param * 36700000 * buffdb1 else 0)"

definition hb_prefactor :: "parameters \<Rightarrow> real \<Rightarrow> real" where
  "hb_prefactor param temperature = Aeff param * CHB_T param temperature"

text \<open>
  \<^verbatim>\<open>SegmentTypeHBtype[i] == a && SegmentTypeHBtype[j] == b\<close>: the second vector element is
  read only when the first comparison holds.
\<close>

definition hb_types_are :: "segmentTypeCollection \<Rightarrow> int \<Rightarrow> int \<Rightarrow> nat \<Rightarrow> nat \<Rightarrow> error + bool" where
  "hb_types_are segments i j a b =
     ebind (vget (SegmentTypeHBtype segments) i) (\<lambda>hi.
       if hi \<noteq> a then Inr False
       else ebind (vget (SegmentTypeHBtype segments) j) (\<lambda>hj. Inr (hj = b)))"

text \<open>
  The misfit part of the body of the inner loop: the value assigned to \<^verbatim>\<open>val\<close> in
  either branch of \<^verbatim>\<open>if (param.sw_misfit > 0)\<close>. \<^verbatim>\<open>sigmai\<close> and \<^verbatim>\<open>sigmaTransi\<close> were
  set by the outer loop.
\<close>

definition misfit_val ::
  "parameters \<Rightarrow> segmentTypeCollection \<Rightarrow> real \<Rightarrow> real \<Rightarrow> int \<Rightarrow> real \<Rightarrow> error + real" where
  "misfit_val param segments sigmai sigmaTransi j sigmaj =
     (let sigmaMFij = sigmai + sigmaj in
      if sw_misfit param > 0 then
        ebind (vget (SegmentTypeSigmaCorr segments) j) (\<lambda>sigmaCorrj.
          let sigmaTransj = sigmaCorrj - 0.816 * sigmaj in
          Inr (misfit_prefactor param * sigmaMFij *
                 (sigmaMFij + fCorr param * (sigmaTransi + sigmaTransj))))
      else Inr (misfit_prefactor param * sigmaMFij * sigmaMFij))"

text \<open>
  The body of the inner loop up to, and without, the assignment to \<^verbatim>\<open>A_int(j, i)\<close>: the
  final value of \<^verbatim>\<open>val\<close>, or the exception.
\<close>

definition pair_val ::
  "parameters \<Rightarrow> real \<Rightarrow> segmentTypeCollection \<Rightarrow> real \<Rightarrow> real \<Rightarrow> int \<Rightarrow> int \<Rightarrow> error + real" where
  "pair_val param temperature segments sigmai sigmaTransi i j =
     (let sigmaHB = SigmaHB param; minus_sigmaHB = - 1 * sigmaHB in
      ebind (vget (SegmentTypeSigma segments) j) (\<lambda>sigmaj.
      ebind (misfit_val param segments sigmai sigmaTransi j sigmaj) (\<lambda>val.
      if sigmai < minus_sigmaHB \<and> sigmaj > sigmaHB then
        ebind (hb_types_are segments i j 1 2) (\<lambda>donor_acceptor.
          if donor_acceptor then
            Inr (val + hb_prefactor param temperature * (sigmaj - sigmaHB) * (sigmai + sigmaHB))
          else
            ebind (hb_types_are segments i j 2 1) (\<lambda>swapped.
              if swapped then
                Inl (RuntimeError
                  ''This should not happen. Wrong assumption calculating interaction matrix. 1'')
              else Inr val))
      else if sigmaj < minus_sigmaHB \<and> sigmai > sigmaHB then
        ebind (hb_types_are segments i j 2 1) (\<lambda>donor_acceptor.
          if donor_acceptor then
            Inr (val + hb_prefactor param temperature * (sigmai - sigmaHB) * (sigmaj + sigmaHB))
          else
            ebind (hb_types_are segments i j 1 2) (\<lambda>swapped.
              if swapped then
                Inl (RuntimeError
                  ''This should not happen. Wrong assumption calculating interaction matrix. 2'')
              else Inr val))
      else Inr val)))"

text \<open>
  The inner loop \<^verbatim>\<open>for (int j = i; j < UpperBoundIndexForNeutralComponents; j++)\<close> over
  the remaining \<^verbatim>\<open>j\<close>. The matrix is a reference parameter: when the exception leaves
  the function, the entries written so far stay written, so the result is the matrix
  together with the pending exception, if any.
\<close>

fun neutral_inner :: "(int \<Rightarrow> error + real) \<Rightarrow> int \<Rightarrow> int list \<Rightarrow> matrix \<Rightarrow> matrix \<times> error option" where
  "neutral_inner val_of i [] A_int = (A_int, None)"
| "neutral_inner val_of i (j # rest) A_int =
     (case val_of j of
        Inl e \<Rightarrow> (A_int, Some e)
      | Inr val \<Rightarrow> neutral_inner val_of i rest (A_int((j, i) := val)))"

text \<open>
  What the outer loop does for one \<^verbatim>\<open>i\<close> before the inner loop: it reads \<^verbatim>\<open>sigmai\<close> and,
  when \<^verbatim>\<open>sw_misfit > 0\<close>, computes \<^verbatim>\<open>sigmaTransi\<close> (which otherwise keeps its initial
  value \<^verbatim>\<open>0.0\<close>).
\<close>

definition outer_reads :: "parameters \<Rightarrow> segmentTypeCollection \<Rightarrow> int \<Rightarrow> error + real \<times> real" where
  "outer_reads param segments i =
     ebind (vget (SegmentTypeSigma segments) i) (\<lambda>sigmai.
       if sw_misfit param > 0 then
         ebind (vget (SegmentTypeSigmaCorr segments) i) (\<lambda>sigmaCorri.
           Inr (sigmai, sigmaCorri - 0.816 * sigmai))
       else Inr (sigmai, 0))"

fun neutral_outer ::
  "parameters \<Rightarrow> real \<Rightarrow> segmentTypeCollection \<Rightarrow> int \<Rightarrow> int list \<Rightarrow> matrix \<Rightarrow> matrix \<times> error option" where
  "neutral_outer param temperature segments ub [] A_int = (A_int, None)"
| "neutral_outer param temperature segments ub (i # rest) A_int =
     (case outer_reads param segments i of
        Inl e \<Rightarrow> (A_int, Some e)
      | Inr (sigmai, sigmaTransi) \<Rightarrow>
          (case neutral_inner (pair_val param temperature segments sigmai sigmaTransi i) i
                  [i..ub - 1] A_int of
             (A_int', Some e) \<Rightarrow> (A_int', Some e)
           | (A_int', None) \<Rightarrow> neutral_outer param temperature segments ub rest A_int'))"

text \<open>
  \<^verbatim>\<open>UpperBoundIndexForNeutralComponents\<close>. The arrays \<^verbatim>\<open>int[7]\<close> have seven elements by
  their type, so the reads at 0, 1 and 2 are not bounds-checked.
\<close>

definition UpperBoundIndexForNeutralComponents :: "segmentTypeCollection \<Rightarrow> int" where
  "UpperBoundIndexForNeutralComponents segments =
     max (max (upperBoundIndexForGroup segments ! 0) (upperBoundIndexForGroup segments ! 1))
         (upperBoundIndexForGroup segments ! 2)"

text \<open>The term-evaluation pass: the two nested loops over the neutral block.\<close>

definition neutral_block ::
  "parameters \<Rightarrow> real \<Rightarrow> segmentTypeCollection \<Rightarrow> matrix \<Rightarrow> matrix \<times> error option" where
  "neutral_block param temperature segments A_int =
     neutral_outer param temperature segments (UpperBoundIndexForNeutralComponents segments)
       [lowerBoundIndexForGroup segments ! 0 .. UpperBoundIndexForNeutralComponents segments - 1]
       A_int"

text \<open>
  The reference state of the main matrix: first
  \<^verbatim>\<open>A_int(j, i) = A_int(j, i) - 0.5f*(A_int(i, i) + A_int(j, j))\<close> for all \<^verbatim>\<open>j > i\<close>, then
  zero on the diagonal.
\<close>

definition reference_row :: "int \<Rightarrow> int list \<Rightarrow> matrix \<Rightarrow> matrix" where
  "reference_row i js A_int =
     fold (\<lambda>j A. A((j, i) := A (j, i) - 0.5 * (A (i, i) + A (j, j)))) js A_int"

definition reference_pass :: "int \<Rightarrow> matrix \<Rightarrow> matrix" where
  "reference_pass numberOfSegments A_int =
     fold (\<lambda>i A. reference_row i [i + 1..numberOfSegments - 1] A) [0..numberOfSegments - 1] A_int"

definition zero_diagonal :: "int \<Rightarrow> matrix \<Rightarrow> matrix" where
  "zero_diagonal numberOfSegments A_int =
     fold (\<lambda>i A. A((i, i) := 0)) [0..numberOfSegments - 1] A_int"

text \<open>
  The same for the partial matrices. Every statement of the loop bodies indexes the
  vector \<^verbatim>\<open>partialInteractionMatrices\<close> with \<^verbatim>\<open>h\<close>; that access is bounds-checked.
\<close>

fun partial_row :: "int \<Rightarrow> int \<Rightarrow> int list \<Rightarrow> matrix list \<Rightarrow> error + matrix list" where
  "partial_row h i [] Ps = Inr Ps"
| "partial_row h i (j # rest) Ps =
     ebind (vget Ps h) (\<lambda>P.
     ebind (vset Ps h (P((j, i) := P (j, i) - 0.5 * (P (i, i) + P (j, j))))) (\<lambda>Ps'.
       partial_row h i rest Ps'))"

fun partial_rows :: "int \<Rightarrow> int \<Rightarrow> int list \<Rightarrow> matrix list \<Rightarrow> error + matrix list" where
  "partial_rows numberOfSegments h [] Ps = Inr Ps"
| "partial_rows numberOfSegments h (i # rest) Ps =
     ebind (partial_row h i [i + 1..numberOfSegments - 1] Ps) (\<lambda>Ps'.
       partial_rows numberOfSegments h rest Ps')"

fun partial_reference_pass :: "int \<Rightarrow> int list \<Rightarrow> matrix list \<Rightarrow> error + matrix list" where
  "partial_reference_pass numberOfSegments [] Ps = Inr Ps"
| "partial_reference_pass numberOfSegments (h # rest) Ps =
     ebind (partial_rows numberOfSegments h [0..numberOfSegments - 1] Ps) (\<lambda>Ps'.
       partial_reference_pass numberOfSegments rest Ps')"

fun partial_zero_row :: "int \<Rightarrow> int list \<Rightarrow> matrix list \<Rightarrow> error + matrix list" where
  "partial_zero_row h [] Ps = Inr Ps"
| "partial_zero_row h (i # rest) Ps =
     ebind (vget Ps h) (\<lambda>P.
     ebind (vset Ps h (P((i, i) := 0))) (\<lambda>Ps'. partial_zero_row h rest Ps'))"

fun partial_zero_diagonal :: "int \<Rightarrow> int list \<Rightarrow> matrix list \<Rightarrow> error + matrix list" where
  "partial_zero_diagonal numberOfSegments [] Ps = Inr Ps"
| "partial_zero_diagonal numberOfSegments (h # rest) Ps =
     ebind (partial_zero_row h [0..numberOfSegments - 1] Ps) (\<lambda>Ps'.
       partial_zero_diagonal numberOfSegments rest Ps')"

text \<open>
  The whole function. The result is the state of the two reference parameters and the
  exception that ended the call, if any. After an out-of-bounds access on the vector of
  partial matrices nothing is known about them; the embedding returns them as passed in.
\<close>

definition calculateInteractionMatrix ::
  "segmentTypeCollection \<Rightarrow> matrix \<Rightarrow> matrix list \<Rightarrow> parameters \<Rightarrow> real
     \<Rightarrow> matrix \<times> matrix list \<times> error option" where
  "calculateInteractionMatrix segments A_int partialInteractionMatrices param temperature =
     (let numberOfSegments = int (size_segments segments) in
      case neutral_block param temperature segments A_int of
        (A1, Some e) \<Rightarrow> (A1, partialInteractionMatrices, Some e)
      | (A1, None) \<Rightarrow>
          if sw_useSegmentReferenceStateForInteractionMatrix param = 1 then
            (let A2 = zero_diagonal numberOfSegments (reference_pass numberOfSegments A1) in
             if sw_calculateContactStatisticsAndAdditionalProperties param > 0 then
               (case ebind (partial_reference_pass numberOfSegments
                              [0..numberOfPartialInteractionMatrices param - 1]
                              partialInteractionMatrices)
                       (partial_zero_diagonal numberOfSegments
                              [0..numberOfPartialInteractionMatrices param - 1]) of
                  Inl e \<Rightarrow> (A2, partialInteractionMatrices, Some e)
                | Inr Ps \<Rightarrow> (A2, Ps, None))
             else (A2, partialInteractionMatrices, None))
          else (A1, partialInteractionMatrices, None))"

section \<open>Notions used in the statements and proofs\<close>

subsection \<open>The registry\<close>

text \<open>
  The key of the segment type at each index: (group, hbType, sigma, sigmaCorr,
  atomicNumber), the five values that \<^verbatim>\<open>add\<close> compares.
\<close>

definition segment_keys :: "segmentTypeCollection \<Rightarrow> (nat \<times> nat \<times> real \<times> real \<times> nat) list" where
  "segment_keys c =
     zip (SegmentTypeGroup c) (zip (SegmentTypeHBtype c) (zip (SegmentTypeSigma c)
       (zip (SegmentTypeSigmaCorr c) (SegmentTypeAtomicNumber c))))"

text \<open>The six attribute vectors hold one element per segment type.\<close>

definition parallel_vectors :: "segmentTypeCollection \<Rightarrow> bool" where
  "parallel_vectors c \<longleftrightarrow>
     length (SegmentTypeGroup c) = length (SegmentTypeHBtype c) \<and>
     length (SegmentTypeSigma c) = length (SegmentTypeHBtype c) \<and>
     length (SegmentTypeSigmaCorr c) = length (SegmentTypeHBtype c) \<and>
     length (SegmentTypeAtomicNumber c) = length (SegmentTypeHBtype c) \<and>
     length (SegmentTypeAreas c) = length (SegmentTypeHBtype c)"

text \<open>
  The invariant of a collection for \<open>n\<close> molecules: parallel vectors, a row template
  of \<open>n\<close> zeros, area rows of width \<open>n\<close>, and no key twice.
\<close>

definition registry_inv :: "nat \<Rightarrow> segmentTypeCollection \<Rightarrow> bool" where
  "registry_inv n c \<longleftrightarrow>
     parallel_vectors c \<and>
     SegmentTypeAreasRowTemplate c = replicate n 0 \<and>
     list_all (\<lambda>row. length row = n) (SegmentTypeAreas c) \<and>
     distinct (segment_keys c)"

text \<open>
  The collections obtained from \<^verbatim>\<open>segmentTypeCollection(n)\<close> by \<^verbatim>\<open>add\<close> and \<^verbatim>\<open>clear\<close> alone:
  the freshly constructed ones, not sorted yet.
\<close>

inductive constructed_with :: "int \<Rightarrow> segmentTypeCollection \<Rightarrow> bool" where
  constructed: "constructed_with n (segmentTypeCollection_n n)"
| added: "constructed_with n c \<Longrightarrow>
          add c ind_molecule grp sigma sigmaCorr HBtype atomicNumber Area = Inr c' \<Longrightarrow>
          constructed_with n c'"
| cleared: "constructed_with n c \<Longrightarrow> constructed_with n (clear c)"

text \<open>
  The area row of a key: the row of the segment type with this key, and the row template
  when there is none.
\<close>

definition area_row ::
  "segmentTypeCollection \<Rightarrow> nat \<times> nat \<times> real \<times> real \<times> nat \<Rightarrow> real list" where
  "area_row c key =
     (case List.find (\<lambda>k. segment_keys c ! k = key) [0..<length (segment_keys c)] of
        None \<Rightarrow> SegmentTypeAreasRowTemplate c
      | Some k \<Rightarrow> SegmentTypeAreas c ! k)"

subsection \<open>Permutations\<close>

text \<open>The indices whose \<^verbatim>\<open>done\<close> flag is set.\<close>

definition marked :: "bool list \<Rightarrow> nat set" where
  "marked done = {k. k < length done \<and> done ! k}"

text \<open>\<open>p\<close> holds each of \<open>0, ..., n - 1\<close> once; \<open>perm_fun p\<close> is \<open>p\<close> read as a function.\<close>

definition perm_on :: "int list \<Rightarrow> nat \<Rightarrow> bool" where
  "perm_on p n \<longleftrightarrow> length p = n \<and> distinct p \<and> (\<forall>x\<in>set p. 0 \<le> x \<and> x < int n)"

definition perm_fun :: "int list \<Rightarrow> nat \<Rightarrow> nat" where
  "perm_fun p k = nat (p ! k)"

text \<open>A comparison that is transitive and total on distinct elements of \<open>S\<close>.\<close>

definition strict_linear_on :: "'a set \<Rightarrow> ('a \<Rightarrow> 'a \<Rightarrow> bool) \<Rightarrow> bool" where
  "strict_linear_on S cmp \<longleftrightarrow>
     (\<forall>x\<in>S. \<forall>y\<in>S. \<forall>z\<in>S. cmp x y \<longrightarrow> cmp y z \<longrightarrow> cmp x z) \<and>
     (\<forall>x\<in>S. \<forall>y\<in>S. x \<noteq> y \<longrightarrow> cmp x y \<or> cmp y x)"

text \<open>
  The tiers of the comparison lambda as one tuple; the lambda is the lexicographic
  order of these tuples.
\<close>

definition tier_key ::
  "segmentTypeCollection \<Rightarrow> int \<Rightarrow> nat \<times> nat \<times> real \<times> real \<times> nat \<times> nat \<times> int" where
  "tier_key c i =
     (SegmentTypeGroup c ! nat i,
      (if SegmentTypeGroup c ! nat i = 3 \<or> SegmentTypeGroup c ! nat i = 5
       then SegmentTypeAtomicNumber c ! nat i else 0),
      SegmentTypeSigma c ! nat i, SegmentTypeSigmaCorr c ! nat i, SegmentTypeHBtype c ! nat i,
      SegmentTypeAtomicNumber c ! nat i, i)"

text \<open>The rearrangement \<^verbatim>\<open>result[k] = vec[p[k]]\<close>, on one vector and on all six.\<close>

definition gather :: "'a list \<Rightarrow> int list \<Rightarrow> 'a list" where
  "gather vec p = map (\<lambda>k. vec ! nat (p ! k)) [0..<length vec]"

definition permuted :: "segmentTypeCollection \<Rightarrow> int list \<Rightarrow> segmentTypeCollection" where
  "permuted c p =
     c \<lparr> SegmentTypeGroup := gather (SegmentTypeGroup c) p,
         SegmentTypeSigma := gather (SegmentTypeSigma c) p,
         SegmentTypeSigmaCorr := gather (SegmentTypeSigmaCorr c) p,
         SegmentTypeHBtype := gather (SegmentTypeHBtype c) p,
         SegmentTypeAtomicNumber := gather (SegmentTypeAtomicNumber c) p,
         SegmentTypeAreas := gather (SegmentTypeAreas c) p \<rparr>"

subsection \<open>The bounds scan as a list of assignments\<close>

text \<open>
  A sequence of assignments \<^verbatim>\<open>xs[k] = v\<close>. The scan of \<^verbatim>\<open>sort\<close> is described by the value
  \<^verbatim>\<open>temporaryindex\<close> ends with and the assignments it makes to the lower and to the
  upper bounds, none of which depends on the contents of the arrays.
\<close>

definition writes :: "(nat \<times> 'a) list \<Rightarrow> 'a list \<Rightarrow> 'a list" where
  "writes W xs = fold (\<lambda>(k, v) ys. ys[k := v]) W xs"

fun scan_last :: "nat list \<Rightarrow> nat list \<Rightarrow> int \<Rightarrow> int" where
  "scan_last gs [] t = t"
| "scan_last gs (i # rest) t = scan_last gs rest (int (gs ! i))"

fun lower_writes :: "nat list \<Rightarrow> nat list \<Rightarrow> int \<Rightarrow> (nat \<times> int) list" where
  "lower_writes gs [] t = []"
| "lower_writes gs (i # rest) t =
     (if t \<noteq> int (gs ! i) then [(gs ! i, int i)] else []) @ lower_writes gs rest (int (gs ! i))"

fun upper_writes :: "nat list \<Rightarrow> nat list \<Rightarrow> int \<Rightarrow> (nat \<times> int) list" where
  "upper_writes gs [] t = []"
| "upper_writes gs (i # rest) t =
     (if t \<noteq> int (gs ! i) \<and> t \<noteq> - 1 then [(nat t, int i)] else [])
       @ upper_writes gs rest (int (gs ! i))"

definition count_writes :: "int list \<Rightarrow> int list \<Rightarrow> nat list \<Rightarrow> (nat \<times> int) list" where
  "count_writes lower upper ks = map (\<lambda>i. (i, max (upper ! i - lower ! i) 0)) ks"

text \<open>The collection with the bounds and counts that \<^verbatim>\<open>sort\<close> leaves for its vectors.\<close>

definition bounds_after :: "segmentTypeCollection \<Rightarrow> segmentTypeCollection" where
  "bounds_after c =
     (let gs = SegmentTypeGroup c; n = size_segments c;
          L = writes (lower_writes gs [0..<n] (- 1)) (lowerBoundIndexForGroup c);
          U = writes (upper_writes gs [0..<n] (- 1) @ [(gs ! (n - 1), int n)])
                (upperBoundIndexForGroup c)
      in c \<lparr> lowerBoundIndexForGroup := L, upperBoundIndexForGroup := U,
             numberOfSegmentsForGroup :=
               writes (count_writes L U [0..<7]) (numberOfSegmentsForGroup c) \<rparr>)"

text \<open>
  The shape \<^verbatim>\<open>sort\<close> relies on: parallel vectors, bound arrays of seven elements, groups
  in \<open>[0, 6]\<close>.
\<close>

definition sortable :: "segmentTypeCollection \<Rightarrow> bool" where
  "sortable c \<longleftrightarrow>
     parallel_vectors c \<and>
     length (lowerBoundIndexForGroup c) = 7 \<and> length (upperBoundIndexForGroup c) = 7 \<and>
     length (numberOfSegmentsForGroup c) = 7 \<and>
     list_all (\<lambda>g. g \<le> 6) (SegmentTypeGroup c)"

text \<open>The permutation vector of a collection with parallel vectors.\<close>

definition sort_permutation :: "segmentTypeCollection \<Rightarrow> int list" where
  "sort_permutation c = std_sort (permutation_less c) (indices (size_segments c))"

text \<open>
  In the words of the specification, the bounds of a group without members are ``the
  insertion point of the next nonempty group (or the collection size)'': in a sorted
  collection, the first index whose group is larger, or the size when there is none.
\<close>

definition claimed_empty_group_bound :: "segmentTypeCollection \<Rightarrow> nat \<Rightarrow> int" where
  "claimed_empty_group_bound c g =
     (case List.find (\<lambda>k. g < SegmentTypeGroup c ! k) [0..<size_segments c] of
        Some k \<Rightarrow> int k
      | None \<Rightarrow> int (size_segments c))"

subsection \<open>Collections of the examples\<close>

text \<open>
  One segment type of group 0, as \<^verbatim>\<open>add\<close> leaves it in a new collection for one
  molecule, and the same after \<^verbatim>\<open>sort\<close>.
\<close>

definition single_segment :: segmentTypeCollection where
  "single_segment = (segmentTypeCollection_n 1)
     \<lparr> SegmentTypeAreas := [[1]], SegmentTypeGroup := [0], SegmentTypeSigma := [0],
       SegmentTypeSigmaCorr := [0], SegmentTypeHBtype := [0], SegmentTypeAtomicNumber := [1] \<rparr>"

definition single_segment_sorted :: segmentTypeCollection where
  "single_segment_sorted = single_segment
     \<lparr> upperBoundIndexForGroup := [1, 0, 0, 0, 0, 0, 0],
       numberOfSegmentsForGroup := [1, 0, 0, 0, 0, 0, 0] \<rparr>"

text \<open>
  Three segment types, the first and the third with the same key but different areas,
  and the same after \<^verbatim>\<open>sort\<close>.
\<close>

definition three_segments :: segmentTypeCollection where
  "three_segments = (segmentTypeCollection_n 1)
     \<lparr> SegmentTypeAreas := [[1], [2], [3]], SegmentTypeGroup := [1, 0, 1],
       SegmentTypeSigma := [0, 0, 0], SegmentTypeSigmaCorr := [0, 0, 0],
       SegmentTypeHBtype := [0, 0, 0], SegmentTypeAtomicNumber := [8, 1, 8] \<rparr>"

definition three_segments_sorted :: segmentTypeCollection where
  "three_segments_sorted = (segmentTypeCollection_n 1)
     \<lparr> lowerBoundIndexForGroup := [0, 1, 0, 0, 0, 0, 0],
       upperBoundIndexForGroup := [1, 3, 0, 0, 0, 0, 0],
       numberOfSegmentsForGroup := [1, 2, 0, 0, 0, 0, 0],
       SegmentTypeAreas := [[2], [1], [3]], SegmentTypeGroup := [0, 1, 1],
       SegmentTypeSigma := [0, 0, 0], SegmentTypeSigmaCorr := [0, 0, 0],
       SegmentTypeHBtype := [0, 0, 0], SegmentTypeAtomicNumber := [1, 8, 8] \<rparr>"

subsection \<open>The interaction matrix\<close>

text \<open>
  The value computed for the pair \<open>(i, j)\<close>: what the outer loop reads for \<open>i\<close>, then the
  body of the inner loop for \<open>j\<close>.
\<close>

definition pair_energy ::
  "parameters \<Rightarrow> real \<Rightarrow> segmentTypeCollection \<Rightarrow> int \<Rightarrow> int \<Rightarrow> error + real" where
  "pair_energy param temperature segments i j =
     ebind (outer_reads param segments i) (\<lambda>(sigmai, sigmaTransi).
       pair_val param temperature segments sigmai sigmaTransi i j)"

text \<open>
  What a pass over the pairs \<open>R\<close> leaves: when it completes, every pair holds its value;
  nothing outside \<open>R\<close> is touched; an entry of \<open>R\<close> is untouched or holds its value; a
  pending error is the error of one of the pairs.
\<close>

definition pass_post ::
  "(int \<times> int) set \<Rightarrow> (int \<Rightarrow> int \<Rightarrow> error + real) \<Rightarrow> matrix \<Rightarrow> matrix \<times> error option \<Rightarrow> bool" where
  "pass_post R V A res \<longleftrightarrow>
     (snd res = None \<longrightarrow> (\<forall>i j. (i, j) \<in> R \<longrightarrow> V i j = Inr (fst res (j, i)))) \<and>
     (\<forall>r c. (c, r) \<notin> R \<longrightarrow> fst res (r, c) = A (r, c)) \<and>
     (\<forall>i j. (i, j) \<in> R \<longrightarrow> fst res (j, i) = A (j, i) \<or> V i j = Inr (fst res (j, i))) \<and>
     (\<forall>e. snd res = Some e \<longrightarrow> (\<exists>i j. (i, j) \<in> R \<and> V i j = Inl e))"

definition block_pairs :: "int list \<Rightarrow> int \<Rightarrow> (int \<times> int) set" where
  "block_pairs is ub = {(i, j). i \<in> set is \<and> i \<le> j \<and> j < ub}"

text \<open>
  The two nested loops as one loop over the list of the pairs in the order of the
  visits: each pair writes its value or ends the pass with its error.
\<close>

fun run_pairs :: "(int \<Rightarrow> int \<Rightarrow> error + real) \<Rightarrow> (int \<times> int) list \<Rightarrow> matrix \<Rightarrow> matrix \<times> error option" where
  "run_pairs V [] A = (A, None)"
| "run_pairs V (p # ps) A =
     (case V (fst p) (snd p) of
        Inl e \<Rightarrow> (A, Some e)
      | Inr v \<Rightarrow> run_pairs V ps (A((snd p, fst p) := v)))"

definition block_list :: "int list \<Rightarrow> int \<Rightarrow> (int \<times> int) list" where
  "block_list is ub = concat (map (\<lambda>i. map (Pair i) [i..ub - 1]) is)"

definition returns :: "(int \<Rightarrow> int \<Rightarrow> error + real) \<Rightarrow> int \<times> int \<Rightarrow> bool" where
  "returns V p \<longleftrightarrow> (\<exists>v. V (fst p) (snd p) = Inr v)"

text \<open>The descriptors of the segment type at an index.\<close>

definition sigma_at :: "segmentTypeCollection \<Rightarrow> int \<Rightarrow> real" where
  "sigma_at segments i = SegmentTypeSigma segments ! nat i"

definition sigmaTrans_at :: "segmentTypeCollection \<Rightarrow> int \<Rightarrow> real" where
  "sigmaTrans_at segments i =
     SegmentTypeSigmaCorr segments ! nat i - 0.816 * SegmentTypeSigma segments ! nat i"

definition hbType_at :: "segmentTypeCollection \<Rightarrow> int \<Rightarrow> nat" where
  "hbType_at segments i = SegmentTypeHBtype segments ! nat i"

text \<open>
  The misfit term in the words of the specification: the base contribution
  \<open>0.5 \<cdot> Aeff \<cdot> \<alpha> \<cdot> 5.95e6 \<cdot> \<sigma>ij\<^sup>2\<close> and the correction
  \<open>0.5 \<cdot> Aeff \<cdot> \<alpha> \<cdot> 5.95e6 \<cdot> \<sigma>ij \<cdot> fCorr \<cdot> (\<sigma>trans_i + \<sigma>trans_j)\<close>.
\<close>

definition misfit_base :: "parameters \<Rightarrow> segmentTypeCollection \<Rightarrow> int \<Rightarrow> int \<Rightarrow> real" where
  "misfit_base param segments i j =
     0.5 * Aeff param * alpha param * 5950000 * (sigma_at segments i + sigma_at segments j)\<^sup>2"

definition misfit_correction :: "parameters \<Rightarrow> segmentTypeCollection \<Rightarrow> int \<Rightarrow> int \<Rightarrow> real" where
  "misfit_correction param segments i j =
     0.5 * Aeff param * alpha param * 5950000 * (sigma_at segments i + sigma_at segments j)
       * fCorr param * (sigmaTrans_at segments i + sigmaTrans_at segments j)"

text \<open>The value the code gives \<^verbatim>\<open>val\<close> before the hydrogen-bond branches.\<close>

definition misfit_term :: "parameters \<Rightarrow> segmentTypeCollection \<Rightarrow> int \<Rightarrow> int \<Rightarrow> real" where
  "misfit_term param segments i j =
     (if sw_misfit param > 0
      then misfit_base param segments i j + misfit_correction param segments i j
      else misfit_base param segments i j)"

text \<open>
  The hydrogen-bond term in the words of the specification:
  \<open>CHB(T) = CHB \<cdot> 3.67e7 \<cdot> max(0, 1 - CHBT + CHBT \<cdot> 298.15 / T)\<close> and
  \<open>Aeff \<cdot> CHB(T) \<cdot> (\<sigma>_positive - \<sigma>HB) \<cdot> (\<sigma>_negative + \<sigma>HB)\<close>.
\<close>

definition CHB_T_closed :: "parameters \<Rightarrow> real \<Rightarrow> real" where
  "CHB_T_closed param temperature =
     CHB param * 36700000 * max 0 (1 - CHBT param + CHBT param * 298.15 / temperature)"

definition hb_term :: "parameters \<Rightarrow> real \<Rightarrow> segmentTypeCollection \<Rightarrow> int \<Rightarrow> int \<Rightarrow> real" where
  "hb_term param temperature segments negative positive =
     Aeff param * CHB_T_closed param temperature
       * (sigma_at segments positive - SigmaHB param)
       * (sigma_at segments negative + SigmaHB param)"

text \<open>The sign condition: one segment below \<open>-SigmaHB\<close>, the other above \<open>SigmaHB\<close>.\<close>

definition hb_sign :: "parameters \<Rightarrow> segmentTypeCollection \<Rightarrow> int \<Rightarrow> int \<Rightarrow> bool" where
  "hb_sign param segments negative positive \<longleftrightarrow>
     sigma_at segments negative < - SigmaHB param \<and> sigma_at segments positive > SigmaHB param"

text \<open>
  An index into the vectors of the collection, and the collections whose neutral block
  lies within the vectors (as it does after \<^verbatim>\<open>sort\<close>).
\<close>

definition segment_index :: "segmentTypeCollection \<Rightarrow> int \<Rightarrow> bool" where
  "segment_index segments i \<longleftrightarrow> 0 \<le> i \<and> i < int (size_segments segments)"

definition neutral_block_ok :: "segmentTypeCollection \<Rightarrow> bool" where
  "neutral_block_ok segments \<longleftrightarrow>
     parallel_vectors segments \<and>
     0 \<le> lowerBoundIndexForGroup segments ! 0 \<and>
     UpperBoundIndexForNeutralComponents segments \<le> int (size_segments segments)"

text \<open>The pairs of the term-evaluation pass.\<close>

definition neutral_pair :: "segmentTypeCollection \<Rightarrow> int \<Rightarrow> int \<Rightarrow> bool" where
  "neutral_pair segments i j \<longleftrightarrow>
     lowerBoundIndexForGroup segments ! 0 \<le> i \<and> i \<le> j \<and>
     j < UpperBoundIndexForNeutralComponents segments"

text \<open>
  A hydrogen-bond branch fires for the pair: the sign condition holds in one direction
  and the classes are 1 and 2 in either order, so that the code adds the term or throws.
\<close>

definition hb_branch_fires :: "parameters \<Rightarrow> segmentTypeCollection \<Rightarrow> int \<Rightarrow> int \<Rightarrow> bool" where
  "hb_branch_fires param segments i j \<longleftrightarrow>
     (hb_sign param segments i j \<or> hb_sign param segments j i) \<and>
     (hbType_at segments i = 1 \<and> hbType_at segments j = 2 \<or>
      hbType_at segments i = 2 \<and> hbType_at segments j = 1)"

text \<open>The value claimed for a pair without hydrogen bond, for \<^verbatim>\<open>sw_misfit\<close> 0, 1 or 2.\<close>

definition misfit_claimed :: "parameters \<Rightarrow> segmentTypeCollection \<Rightarrow> int \<Rightarrow> int \<Rightarrow> real" where
  "misfit_claimed param segments i j =
     (if sw_misfit param = 0 then misfit_base param segments i j
      else misfit_base param segments i j + misfit_correction param segments i j)"

text \<open>
  The classes in the orientation the signs imply (the negative segment carries class 1,
  the positive one class 2), and in the opposite orientation.
\<close>

definition hb_donor_acceptor :: "parameters \<Rightarrow> segmentTypeCollection \<Rightarrow> int \<Rightarrow> int \<Rightarrow> bool" where
  "hb_donor_acceptor param segments i j \<longleftrightarrow>
     hb_sign param segments i j \<and> hbType_at segments i = 1 \<and> hbType_at segments j = 2 \<or>
     hb_sign param segments j i \<and> hbType_at segments i = 2 \<and> hbType_at segments j = 1"

definition hb_swapped :: "parameters \<Rightarrow> segmentTypeCollection \<Rightarrow> int \<Rightarrow> int \<Rightarrow> bool" where
  "hb_swapped param segments i j \<longleftrightarrow>
     hb_sign param segments i j \<and> hbType_at segments i = 2 \<and> hbType_at segments j = 1 \<or>
     hb_sign param segments j i \<and> hbType_at segments i = 1 \<and> hbType_at segments j = 2"

text \<open>
  The pairs at which the body of the inner loop throws: the first sign test holds and
  the classes are 2 and 1, or the first sign test fails, the second one holds and the
  classes are 1 and 2.
\<close>

definition hb_raises :: "parameters \<Rightarrow> segmentTypeCollection \<Rightarrow> int \<Rightarrow> int \<Rightarrow> bool" where
  "hb_raises param segments i j \<longleftrightarrow>
     hb_sign param segments i j \<and> hbType_at segments i = 2 \<and> hbType_at segments j = 1 \<or>
     \<not> hb_sign param segments i j \<and> hb_sign param segments j i \<and>
       hbType_at segments i = 1 \<and> hbType_at segments j = 2"

text \<open>
  The loops visit the pairs with \<open>i\<close> ascending and, for each \<open>i\<close>, with \<open>j\<close> ascending, and
  the first pair that throws ends the function. The assignment to \<^verbatim>\<open>A_int(j, i)\<close> is
  reached when no pair of the block visited before \<open>(i, j)\<close>, nor \<open>(i, j)\<close> itself, throws.
\<close>

definition write_reached :: "parameters \<Rightarrow> segmentTypeCollection \<Rightarrow> int \<Rightarrow> int \<Rightarrow> bool" where
  "write_reached param segments i j \<longleftrightarrow>
     (\<forall>i' j'. neutral_pair segments i' j' \<and> (i' < i \<or> i' = i \<and> j' \<le> j) \<longrightarrow>
        \<not> hb_raises param segments i' j')"

text \<open>The amount added for a pair in the expected orientation.\<close>

definition hb_amount :: "parameters \<Rightarrow> real \<Rightarrow> segmentTypeCollection \<Rightarrow> int \<Rightarrow> int \<Rightarrow> real" where
  "hb_amount param temperature segments i j =
     (if hb_sign param segments i j then hb_term param temperature segments i j
      else hb_term param temperature segments j i)"

text \<open>The first reference-state pass restricted to some columns.\<close>

definition reference_shift :: "int \<Rightarrow> int set \<Rightarrow> matrix \<Rightarrow> matrix" where
  "reference_shift n cols A =
     (\<lambda>(r, c). if c \<in> cols \<and> c < r \<and> r < n then A (r, c) - 0.5 * (A (c, c) + A (r, r))
                else A (r, c))"

text \<open>A function applied to the matrices at the indices \<open>hs\<close> of a vector of matrices.\<close>

definition on_matrices :: "(matrix \<Rightarrow> matrix) \<Rightarrow> int set \<Rightarrow> matrix list \<Rightarrow> matrix list" where
  "on_matrices f hs Ps = map (\<lambda>k. if int k \<in> hs then f (Ps ! k) else Ps ! k) [0..<length Ps]"

text \<open>
  Two segment types of group 1 with the bounds \<^verbatim>\<open>sort\<close> gives them, four segment types
  of group 1 in the order \<^verbatim>\<open>sort\<close> gives them (\<open>sigma\<close> ascending), two matrices and a
  parameter set for the examples.
\<close>

definition two_segments :: "real \<Rightarrow> real \<Rightarrow> nat \<Rightarrow> nat \<Rightarrow> segmentTypeCollection" where
  "two_segments sigma0 sigma1 hb0 hb1 =
     \<lparr> SegmentTypeAreasRowTemplate = [0],
       lowerBoundIndexForGroup = [0, 0, 0, 0, 0, 0, 0],
       upperBoundIndexForGroup = [0, 2, 0, 0, 0, 0, 0],
       numberOfSegmentsForGroup = [0, 2, 0, 0, 0, 0, 0],
       SegmentTypeAreas = [[1], [1]],
       SegmentTypeGroup = [1, 1],
       SegmentTypeSigma = [sigma0, sigma1],
       SegmentTypeSigmaCorr = [sigma0, sigma1],
       SegmentTypeHBtype = [hb0, hb1],
       SegmentTypeAtomicNumber = [8, 1] \<rparr>"

definition four_segments :: segmentTypeCollection where
  "four_segments =
     \<lparr> SegmentTypeAreasRowTemplate = [0],
       lowerBoundIndexForGroup = [0, 0, 0, 0, 0, 0, 0],
       upperBoundIndexForGroup = [0, 4, 0, 0, 0, 0, 0],
       numberOfSegmentsForGroup = [0, 4, 0, 0, 0, 0, 0],
       SegmentTypeAreas = [[1], [1], [1], [1]],
       SegmentTypeGroup = [1, 1, 1, 1],
       SegmentTypeSigma = [- 0.03, - 0.02, 0.02, 0.03],
       SegmentTypeSigmaCorr = [- 0.03, - 0.02, 0.02, 0.03],
       SegmentTypeHBtype = [2, 1, 1, 2],
       SegmentTypeAtomicNumber = [8, 8, 1, 1] \<rparr>"

definition zero_matrix :: matrix where
  "zero_matrix = (\<lambda>_. 0)"

definition ones_matrix :: matrix where
  "ones_matrix = (\<lambda>_. 1)"

definition example_param :: "real \<Rightarrow> int \<Rightarrow> parameters" where
  "example_param sigmaHB referenceState =
     \<lparr> sw_misfit = 2,
       sw_useSegmentReferenceStateForInteractionMatrix = referenceState,
       sw_calculateContactStatisticsAndAdditionalProperties = 1,
       numberOfPartialInteractionMatrices = 1,
       Aeff = 1, alpha = 1, CHB = 1, CHBT = 0, SigmaHB = sigmaHB, fCorr = 1 \<rparr>"

lemma ebind_Inr [simp]: "ebind (Inr v) f = f v"
  by (simp add: ebind_def)

lemma ebind_Inl [simp]: "ebind (Inl e) f = Inl e"
  by (simp add: ebind_def)

lemma vget_in [simp]: "0 \<le> i \<Longrightarrow> i < int (length xs) \<Longrightarrow> vget xs i = Inr (xs ! nat i)"
  by (simp add: vget_def)

lemma vget_int [simp]: "k < length xs \<Longrightarrow> vget xs (int k) = Inr (xs ! k)"
  by (simp add: vget_def)

lemma length_segment_keys: "parallel_vectors c \<Longrightarrow> length (segment_keys c) = length (SegmentTypeHBtype c)"
  by (simp add: parallel_vectors_def segment_keys_def)

lemma nth_segment_keys:
  "parallel_vectors c \<Longrightarrow> k < length (SegmentTypeHBtype c) \<Longrightarrow>
   segment_keys c ! k = (SegmentTypeGroup c ! k, SegmentTypeHBtype c ! k, SegmentTypeSigma c ! k,
                         SegmentTypeSigmaCorr c ! k, SegmentTypeAtomicNumber c ! k)"
  by (simp add: parallel_vectors_def segment_keys_def)

lemma add_match_int:
  "parallel_vectors c \<Longrightarrow> k < length (SegmentTypeHBtype c) \<Longrightarrow>
   add_match c grp sigma sigmaCorr HBtype atomicNumber (int k) =
     Inr (segment_keys c ! k = (grp, HBtype, sigma, sigmaCorr, atomicNumber))"
  by (simp add: add_match_def nth_segment_keys) (simp add: parallel_vectors_def)

lemma add_search_find:
  "parallel_vectors c \<Longrightarrow> \<forall>k \<in> set ks. k < length (SegmentTypeHBtype c) \<Longrightarrow>
   add_search c grp sigma sigmaCorr HBtype atomicNumber (map int ks) =
     Inr (case List.find (\<lambda>k. segment_keys c ! k = (grp, HBtype, sigma, sigmaCorr, atomicNumber)) ks of
            None \<Rightarrow> - 1 | Some k \<Rightarrow> int k)"
  by (induction ks) (simp_all add: add_match_int)

lemma find_upt_absent:
  "key \<notin> set xs \<Longrightarrow> List.find (\<lambda>k. xs ! k = key) [0..<length xs] = None"
  by (auto simp add: find_None_iff)

lemma find_upt_present:
  "key \<in> set xs \<Longrightarrow> \<exists>k. k < length xs \<and> xs ! k = key \<and> List.find (\<lambda>k. xs ! k = key) [0..<length xs] = Some k"
proof -
  assume "key \<in> set xs"
  then obtain j where j: "j < length xs" "xs ! j = key" by (auto simp add: in_set_conv_nth)
  then have "List.find (\<lambda>k. xs ! k = key) [0..<length xs] \<noteq> None"
    by (auto simp add: find_None_iff)
  then obtain k where k: "List.find (\<lambda>k. xs ! k = key) [0..<length xs] = Some k" by auto
  then have "k < length xs \<and> xs ! k = key"
    by (auto simp add: find_Some_iff)
  with k show ?thesis by blast
qed

lemma add_area_row:
  assumes "k < length (SegmentTypeAreas c)" "length (SegmentTypeAreas c ! k) = n"
  shows "add_area c (int k) m a =
     (if m < n
      then Inr (c \<lparr> SegmentTypeAreas :=
                  (SegmentTypeAreas c)[k := (SegmentTypeAreas c ! k)[m := SegmentTypeAreas c ! k ! m + a]] \<rparr>)
      else Inl OutOfBounds)"
  using assms by (simp add: add_area_def vget_def)

lemma add_zero: "add c m grp sigma sigmaCorr HBtype atomicNumber 0 = Inr c"
  by (simp add: add_def)

lemma add_present:
  assumes inv: "registry_inv n c" and a: "a \<noteq> 0"
    and k: "k < length (segment_keys c)" "segment_keys c ! k = (grp, HBtype, sigma, sigmaCorr, atomicNumber)"
  shows "add c m grp sigma sigmaCorr HBtype atomicNumber a =
     (if m < n
      then Inr (c \<lparr> SegmentTypeAreas :=
                  (SegmentTypeAreas c)[k := (SegmentTypeAreas c ! k)[m := SegmentTypeAreas c ! k ! m + a]] \<rparr>)
      else Inl OutOfBounds)"
proof -
  let ?key = "(grp, HBtype, sigma, sigmaCorr, atomicNumber)"
  from inv have par: "parallel_vectors c" and dist: "distinct (segment_keys c)"
    and rows: "list_all (\<lambda>row. length row = n) (SegmentTypeAreas c)"
    by (simp_all add: registry_inv_def)
  have len: "length (segment_keys c) = length (SegmentTypeHBtype c)"
    using par by (rule length_segment_keys)
  from k have "?key \<in> set (segment_keys c)" by (auto simp add: in_set_conv_nth)
  from find_upt_present [OF this] obtain j where j: "j < length (segment_keys c)"
    "segment_keys c ! j = ?key"
    "List.find (\<lambda>k. segment_keys c ! k = ?key) [0..<length (segment_keys c)] = Some j" by blast
  from dist j(1,2) k have "j = k" by (metis nth_eq_iff_index_eq)
  with j(3) len have search:
    "add_search c grp sigma sigmaCorr HBtype atomicNumber (indices (length (SegmentTypeHBtype c))) = Inr (int k)"
    using add_search_find [OF par, of "[0..<length (SegmentTypeHBtype c)]" grp sigma sigmaCorr HBtype atomicNumber]
    by (simp add: indices_def)
  have kA: "k < length (SegmentTypeAreas c)" using k(1) len par by (simp add: parallel_vectors_def)
  with rows have "length (SegmentTypeAreas c ! k) = n" by (simp add: list_all_length)
  from add_area_row [OF kA this] search a show ?thesis by (simp add: add_def)
qed

lemma add_absent:
  assumes inv: "registry_inv n c" and a: "a \<noteq> 0"
    and k: "(grp, HBtype, sigma, sigmaCorr, atomicNumber) \<notin> set (segment_keys c)"
  shows "add c m grp sigma sigmaCorr HBtype atomicNumber a =
     (if m < n
      then Inr ((add_append c grp sigma sigmaCorr HBtype atomicNumber)
                 \<lparr> SegmentTypeAreas := SegmentTypeAreas c @ [(replicate n 0)[m := a]] \<rparr>)
      else Inl OutOfBounds)"
proof -
  let ?key = "(grp, HBtype, sigma, sigmaCorr, atomicNumber)"
  let ?c' = "add_append c grp sigma sigmaCorr HBtype atomicNumber"
  from inv have par: "parallel_vectors c" and tmpl: "SegmentTypeAreasRowTemplate c = replicate n 0"
    by (simp_all add: registry_inv_def)
  have len: "length (segment_keys c) = length (SegmentTypeHBtype c)"
    using par by (rule length_segment_keys)
  from find_upt_absent [OF k] len have search:
    "add_search c grp sigma sigmaCorr HBtype atomicNumber (indices (length (SegmentTypeHBtype c))) = Inr (- 1)"
    using add_search_find [OF par, of "[0..<length (SegmentTypeHBtype c)]" grp sigma sigmaCorr HBtype atomicNumber]
    by (simp add: indices_def)
  have A: "SegmentTypeAreas ?c' = SegmentTypeAreas c @ [replicate n 0]"
    and H: "length (SegmentTypeHBtype ?c') = Suc (length (SegmentTypeHBtype c))"
    by (simp_all add: add_append_def tmpl)
  have lA: "length (SegmentTypeAreas c) = length (SegmentTypeHBtype c)"
    using par by (simp add: parallel_vectors_def)
  have "add_area ?c' (int (length (SegmentTypeHBtype c))) m a =
     (if m < n then Inr (?c' \<lparr> SegmentTypeAreas := SegmentTypeAreas c @ [(replicate n 0)[m := a]] \<rparr>)
      else Inl OutOfBounds)"
    using add_area_row [of "length (SegmentTypeHBtype c)" ?c' n m a]
    by (simp add: A lA nth_append list_update_append)
  with search a H show ?thesis by (simp add: add_def Let_def)
qed

lemma segment_keys_add_append:
  "parallel_vectors c \<Longrightarrow>
   segment_keys (add_append c grp sigma sigmaCorr HBtype atomicNumber) =
     segment_keys c @ [(grp, HBtype, sigma, sigmaCorr, atomicNumber)]"
  by (simp add: segment_keys_def add_append_def parallel_vectors_def)

lemma registry_inv_add:
  assumes inv: "registry_inv n c"
    and ad: "add c m grp sigma sigmaCorr HBtype atomicNumber a = Inr c'"
  shows "registry_inv n c'"
proof (cases "a = 0")
  case True
  with ad inv show ?thesis by (simp add: add_def)
next
  case a: False
  let ?key = "(grp, HBtype, sigma, sigmaCorr, atomicNumber)"
  from inv have par: "parallel_vectors c" and dist: "distinct (segment_keys c)"
    and rows: "list_all (\<lambda>row. length row = n) (SegmentTypeAreas c)"
    and tmpl: "SegmentTypeAreasRowTemplate c = replicate n 0"
    by (simp_all add: registry_inv_def)
  show ?thesis
  proof (cases "?key \<in> set (segment_keys c)")
    case True
    then obtain k where k: "k < length (segment_keys c)" "segment_keys c ! k = ?key"
      by (auto simp add: in_set_conv_nth)
    from add_present [OF inv a k, of m] ad
    have c': "c' = c \<lparr> SegmentTypeAreas :=
                  (SegmentTypeAreas c)[k := (SegmentTypeAreas c ! k)[m := SegmentTypeAreas c ! k ! m + a]] \<rparr>"
      by (simp split: if_splits)
    have "k < length (SegmentTypeAreas c)"
      using k(1) par by (simp add: length_segment_keys) (simp add: parallel_vectors_def)
    then have "list_all (\<lambda>row. length row = n) (SegmentTypeAreas c')"
      using rows unfolding c' list_all_length by (auto simp add: nth_list_update)
    with par dist tmpl show ?thesis
      unfolding c' by (simp add: registry_inv_def parallel_vectors_def segment_keys_def)
  next
    case False
    from add_absent [OF inv a False, of m] ad
    have c': "c' = (add_append c grp sigma sigmaCorr HBtype atomicNumber)
                 \<lparr> SegmentTypeAreas := SegmentTypeAreas c @ [(replicate n 0)[m := a]] \<rparr>"
      by (simp split: if_splits)
    have keys: "segment_keys c' = segment_keys c @ [?key]"
      using segment_keys_add_append [OF par, of grp sigma sigmaCorr HBtype atomicNumber]
      unfolding c' by (simp add: segment_keys_def)
    have "parallel_vectors c'" using par unfolding c' by (simp add: parallel_vectors_def add_append_def)
    moreover have "SegmentTypeAreasRowTemplate c' = replicate n 0"
      using tmpl unfolding c' by (simp add: add_append_def)
    moreover have "list_all (\<lambda>row. length row = n) (SegmentTypeAreas c')"
      using rows unfolding c' by simp
    moreover have "distinct (segment_keys c')" using dist False by (simp add: keys)
    ultimately show ?thesis by (simp add: registry_inv_def)
  qed
qed

lemma registry_inv_ctor: "registry_inv (nat n) (segmentTypeCollection_n n)"
  by (simp add: registry_inv_def parallel_vectors_def segment_keys_def segmentTypeCollection_n_def)

lemma registry_inv_clear: "registry_inv n c \<Longrightarrow> registry_inv n (clear c)"
  by (simp add: registry_inv_def parallel_vectors_def segment_keys_def clear_def)

lemma constructed_with_inv: "constructed_with n c \<Longrightarrow> registry_inv (nat n) c"
  by (induction rule: constructed_with.induct)
     (auto intro: registry_inv_ctor registry_inv_add registry_inv_clear)

lemma add_succeeds_iff:
  assumes inv: "registry_inv n c" and a: "a \<noteq> 0"
  shows "(\<exists>c'. add c m grp sigma sigmaCorr HBtype atomicNumber a = Inr c') \<longleftrightarrow> m < n"
proof (cases "(grp, HBtype, sigma, sigmaCorr, atomicNumber) \<in> set (segment_keys c)")
  case True
  then obtain k where k: "k < length (segment_keys c)"
    "segment_keys c ! k = (grp, HBtype, sigma, sigmaCorr, atomicNumber)"
    by (auto simp add: in_set_conv_nth)
  show ?thesis by (simp add: add_present [OF inv a k])
next
  case False
  show ?thesis by (simp add: add_absent [OF inv a False])
qed

lemma add_fails_OutOfBounds:
  assumes inv: "registry_inv n c" and a: "a \<noteq> 0" and m: "\<not> m < n"
  shows "add c m grp sigma sigmaCorr HBtype atomicNumber a = Inl OutOfBounds"
proof (cases "(grp, HBtype, sigma, sigmaCorr, atomicNumber) \<in> set (segment_keys c)")
  case True
  then obtain k where k: "k < length (segment_keys c)"
    "segment_keys c ! k = (grp, HBtype, sigma, sigmaCorr, atomicNumber)"
    by (auto simp add: in_set_conv_nth)
  show ?thesis using m by (simp add: add_present [OF inv a k])
next
  case False
  show ?thesis using m by (simp add: add_absent [OF inv a False])
qed

lemma area_row_present:
  assumes "distinct (segment_keys c)" "k < length (segment_keys c)" "segment_keys c ! k = key"
  shows "area_row c key = SegmentTypeAreas c ! k"
proof -
  from assms have "key \<in> set (segment_keys c)" by (auto simp add: in_set_conv_nth)
  from find_upt_present [OF this] obtain j where j: "j < length (segment_keys c)"
    "segment_keys c ! j = key"
    "List.find (\<lambda>k. segment_keys c ! k = key) [0..<length (segment_keys c)] = Some j" by blast
  from assms j(1,2) have "j = k" by (metis nth_eq_iff_index_eq)
  with j(3) show ?thesis by (simp add: area_row_def)
qed

lemma area_row_absent:
  "key \<notin> set (segment_keys c) \<Longrightarrow> area_row c key = SegmentTypeAreasRowTemplate c"
  by (simp add: area_row_def find_upt_absent)

lemma count_list_distinct:
  "distinct xs \<Longrightarrow> count_list xs x = (if x \<in> set xs then 1 else 0)"
  by (induction xs) auto

lemma add_twice_present:
  assumes inv: "registry_inv n c" and a: "a1 \<noteq> 0" "a2 \<noteq> 0" and m: "m1 < n" "m2 < n"
    and k: "k < length (segment_keys c)" "segment_keys c ! k = (grp, HBtype, sigma, sigmaCorr, atomicNumber)"
  shows "\<exists>c1 c2. add c m1 grp sigma sigmaCorr HBtype atomicNumber a1 = Inr c1 \<and>
           add c1 m2 grp sigma sigmaCorr HBtype atomicNumber a2 = Inr c2 \<and>
           registry_inv n c2 \<and>
           segment_keys c1 = segment_keys c \<and> segment_keys c2 = segment_keys c \<and>
           SegmentTypeAreas c2 ! k =
             ((SegmentTypeAreas c ! k)[m1 := SegmentTypeAreas c ! k ! m1 + a1])
               [m2 := ((SegmentTypeAreas c ! k)[m1 := SegmentTypeAreas c ! k ! m1 + a1]) ! m2 + a2]"
proof -
  let ?r = "SegmentTypeAreas c ! k"
  let ?c1 = "c \<lparr> SegmentTypeAreas := (SegmentTypeAreas c)[k := ?r[m1 := ?r ! m1 + a1]] \<rparr>"
  have kA: "k < length (SegmentTypeAreas c)"
    using k(1) inv by (simp add: registry_inv_def length_segment_keys) (simp add: registry_inv_def parallel_vectors_def)
  have 1: "add c m1 grp sigma sigmaCorr HBtype atomicNumber a1 = Inr ?c1"
    using add_present [OF inv a(1) k, of m1] m by simp
  have inv1: "registry_inv n ?c1" using registry_inv_add [OF inv 1] .
  have keys1: "segment_keys ?c1 = segment_keys c" by (simp add: segment_keys_def)
  let ?r1 = "SegmentTypeAreas ?c1 ! k"
  let ?c2 = "?c1 \<lparr> SegmentTypeAreas := (SegmentTypeAreas ?c1)[k := ?r1[m2 := ?r1 ! m2 + a2]] \<rparr>"
  have 2: "add ?c1 m2 grp sigma sigmaCorr HBtype atomicNumber a2 = Inr ?c2"
    using add_present [OF inv1 a(2), of k grp HBtype sigma sigmaCorr atomicNumber m2] k m
    by (simp only: keys1) simp
  have inv2: "registry_inv n ?c2" using registry_inv_add [OF inv1 2] .
  have keys2: "segment_keys ?c2 = segment_keys c" by (simp add: segment_keys_def)
  have row: "SegmentTypeAreas ?c2 ! k = (?r[m1 := ?r ! m1 + a1])[m2 := (?r[m1 := ?r ! m1 + a1]) ! m2 + a2]"
    using kA by simp
  from 1 2 inv2 keys1 keys2 row show ?thesis by blast
qed

lemma add_twice_inv:
  assumes inv: "registry_inv n c" and a: "a1 \<noteq> 0" "a2 \<noteq> 0" and m: "m1 < n" "m2 < n"
  shows "\<exists>c1 c2. add c m1 grp sigma sigmaCorr HBtype atomicNumber a1 = Inr c1 \<and>
           add c1 m2 grp sigma sigmaCorr HBtype atomicNumber a2 = Inr c2 \<and>
           size_segments c2 = size_segments c1 \<and>
           count_list (segment_keys c2) (grp, HBtype, sigma, sigmaCorr, atomicNumber) = 1 \<and>
           length (area_row c2 (grp, HBtype, sigma, sigmaCorr, atomicNumber)) = n \<and>
           (\<forall>m < n. area_row c2 (grp, HBtype, sigma, sigmaCorr, atomicNumber) ! m =
                     area_row c (grp, HBtype, sigma, sigmaCorr, atomicNumber) ! m
                       + (if m = m1 then a1 else 0) + (if m = m2 then a2 else 0))"
proof -
  let ?key = "(grp, HBtype, sigma, sigmaCorr, atomicNumber)"
  have main: "\<exists>c1 c2. add c m1 grp sigma sigmaCorr HBtype atomicNumber a1 = Inr c1 \<and>
           add c1 m2 grp sigma sigmaCorr HBtype atomicNumber a2 = Inr c2 \<and>
           size_segments c2 = size_segments c1 \<and> registry_inv n c2 \<and>
           ?key \<in> set (segment_keys c2) \<and>
           area_row c2 ?key = ((area_row c ?key)[m1 := area_row c ?key ! m1 + a1])
               [m2 := ((area_row c ?key)[m1 := area_row c ?key ! m1 + a1]) ! m2 + a2]"
  proof (cases "?key \<in> set (segment_keys c)")
    case True
    then obtain k where k: "k < length (segment_keys c)" "segment_keys c ! k = ?key"
      by (auto simp add: in_set_conv_nth)
    from add_twice_present [OF inv a m k] obtain c1 c2 where
      c: "add c m1 grp sigma sigmaCorr HBtype atomicNumber a1 = Inr c1"
         "add c1 m2 grp sigma sigmaCorr HBtype atomicNumber a2 = Inr c2"
         "registry_inv n c2" "segment_keys c1 = segment_keys c" "segment_keys c2 = segment_keys c"
         "SegmentTypeAreas c2 ! k =
             ((SegmentTypeAreas c ! k)[m1 := SegmentTypeAreas c ! k ! m1 + a1])
               [m2 := ((SegmentTypeAreas c ! k)[m1 := SegmentTypeAreas c ! k ! m1 + a1]) ! m2 + a2]"
      by blast
    have inv1: "registry_inv n c1" using registry_inv_add [OF inv c(1)] .
    have d: "distinct (segment_keys c)" using inv by (simp add: registry_inv_def)
    have r0: "area_row c ?key = SegmentTypeAreas c ! k" using area_row_present [OF d k] .
    have r2: "area_row c2 ?key = SegmentTypeAreas c2 ! k"
      using area_row_present [of c2 k ?key] d k by (simp add: c(5))
    have sz: "size_segments c2 = size_segments c1"
      using length_segment_keys [of c1] length_segment_keys [of c2] inv1 c(3,4,5)
      by (simp add: size_segments_def registry_inv_def)
    from c sz True r0 r2 show ?thesis by auto
  next
    case False
    let ?c1 = "(add_append c grp sigma sigmaCorr HBtype atomicNumber)
                 \<lparr> SegmentTypeAreas := SegmentTypeAreas c @ [(replicate n 0)[m1 := a1]] \<rparr>"
    have par: "parallel_vectors c" and tmpl: "SegmentTypeAreasRowTemplate c = replicate n 0"
      using inv by (simp_all add: registry_inv_def)
    have 1: "add c m1 grp sigma sigmaCorr HBtype atomicNumber a1 = Inr ?c1"
      using add_absent [OF inv a(1) False, of m1] m by simp
    have inv1: "registry_inv n ?c1" using registry_inv_add [OF inv 1] .
    have keys1: "segment_keys ?c1 = segment_keys c @ [?key]"
      using segment_keys_add_append [OF par, of grp sigma sigmaCorr HBtype atomicNumber]
      by (simp add: segment_keys_def)
    let ?k = "length (segment_keys c)"
    have k: "?k < length (segment_keys ?c1)" "segment_keys ?c1 ! ?k = ?key"
      by (simp_all add: keys1)
    from add_twice_present [OF inv1 a(2) a(2) m(2) m(2) k] obtain c2 where
      c: "add ?c1 m2 grp sigma sigmaCorr HBtype atomicNumber a2 = Inr c2" by blast
    have lenA: "length (SegmentTypeAreas c) = ?k"
      using par by (simp add: length_segment_keys) (simp add: parallel_vectors_def)
    have c2: "c2 = ?c1 \<lparr> SegmentTypeAreas := (SegmentTypeAreas ?c1)
                 [?k := (SegmentTypeAreas ?c1 ! ?k)[m2 := SegmentTypeAreas ?c1 ! ?k ! m2 + a2]] \<rparr>"
      using add_present [OF inv1 a(2) k, of m2] m c by simp
    have inv2: "registry_inv n c2" using registry_inv_add [OF inv1 c] .
    have keys2: "segment_keys c2 = segment_keys c @ [?key]"
      unfolding c2 using keys1 by (simp add: segment_keys_def)
    have r0: "area_row c ?key = replicate n 0" using area_row_absent [OF False] tmpl by simp
    have d2: "distinct (segment_keys c2)" using inv2 by (simp add: registry_inv_def)
    have "area_row c2 ?key = SegmentTypeAreas c2 ! ?k"
      using area_row_present [OF d2, of ?k ?key] by (simp add: keys2)
    also have "\<dots> = ((replicate n 0)[m1 := a1])[m2 := ((replicate n 0)[m1 := a1]) ! m2 + a2]"
      unfolding c2 using lenA by (simp add: nth_append)
    finally have r2: "area_row c2 ?key =
        ((area_row c ?key)[m1 := area_row c ?key ! m1 + a1])
               [m2 := ((area_row c ?key)[m1 := area_row c ?key ! m1 + a1]) ! m2 + a2]"
      using m by (simp add: r0)
    have sz: "size_segments c2 = size_segments ?c1"
      unfolding c2 by (simp add: size_segments_def)
    have "?key \<in> set (segment_keys c2)" by (simp add: keys2)
    with 1 c sz inv2 r2 show ?thesis by blast
  qed
  then obtain c1 c2 where
    c: "add c m1 grp sigma sigmaCorr HBtype atomicNumber a1 = Inr c1"
       "add c1 m2 grp sigma sigmaCorr HBtype atomicNumber a2 = Inr c2"
       "size_segments c2 = size_segments c1" "registry_inv n c2"
       "?key \<in> set (segment_keys c2)"
       "area_row c2 ?key = ((area_row c ?key)[m1 := area_row c ?key ! m1 + a1])
               [m2 := ((area_row c ?key)[m1 := area_row c ?key ! m1 + a1]) ! m2 + a2]"
    by blast
  have len0: "length (area_row c ?key) = n"
  proof (cases "?key \<in> set (segment_keys c)")
    case True
    then obtain k where k: "k < length (segment_keys c)" "segment_keys c ! k = ?key"
      by (auto simp add: in_set_conv_nth)
    have "k < length (SegmentTypeAreas c)"
      using k(1) inv by (simp add: registry_inv_def length_segment_keys) (simp add: registry_inv_def parallel_vectors_def)
    then have "length (SegmentTypeAreas c ! k) = n"
      using inv by (simp add: registry_inv_def list_all_length)
    then show ?thesis using area_row_present [OF _ k] inv by (simp add: registry_inv_def)
  next
    case False
    then show ?thesis using area_row_absent [OF False] inv by (simp add: registry_inv_def)
  qed
  have cnt: "count_list (segment_keys c2) ?key = 1"
    using c(4,5) by (simp add: registry_inv_def count_list_distinct)
  have len2: "length (area_row c2 ?key) = n" using len0 by (simp add: c(6))
  have vals: "\<forall>m < n. area_row c2 ?key ! m =
                     area_row c ?key ! m + (if m = m1 then a1 else 0) + (if m = m2 then a2 else 0)"
    using len0 m by (auto simp add: c(6) nth_list_update)
  from c(1,2,3) cnt len2 vals show ?thesis by blast
qed

text \<open>
  Claim C8. For a collection that satisfies the invariant of the registry for \<open>n\<close>
  molecules (as every collection obtained from \<^verbatim>\<open>segmentTypeCollection(n)\<close> through
  \<^verbatim>\<open>add\<close>, \<^verbatim>\<open>clear\<close> and \<^verbatim>\<open>sort\<close> does), two calls of \<^verbatim>\<open>add\<close> with non-zero areas, molecule indices below \<open>n\<close> and the
  same key (group, hbType, sigma, sigmaCorr, atomicNumber) both succeed; the second call
  does not grow the collection, the key occurs exactly once afterwards, and the area row
  of that segment type is the row it had before (the zero row when the key was new) with
  \<open>a1\<close> added at index \<open>m1\<close> and \<open>a2\<close> added at index \<open>m2\<close>, hence \<open>a1 + a2\<close> more at
  index \<open>m\<close> when \<open>m1 = m2 = m\<close>.
\<close>

theorem add_same_key_twice_accumulates:
  assumes "registry_inv n c" and "a1 \<noteq> 0" and "a2 \<noteq> 0" and "m1 < n" and "m2 < n"
  shows "\<exists>c1 c2. add c m1 grp sigma sigmaCorr HBtype atomicNumber a1 = Inr c1 \<and>
           add c1 m2 grp sigma sigmaCorr HBtype atomicNumber a2 = Inr c2 \<and>
           size_segments c2 = size_segments c1 \<and>
           count_list (segment_keys c2) (grp, HBtype, sigma, sigmaCorr, atomicNumber) = 1 \<and>
           length (area_row c2 (grp, HBtype, sigma, sigmaCorr, atomicNumber)) = n \<and>
           (\<forall>m < n. area_row c2 (grp, HBtype, sigma, sigmaCorr, atomicNumber) ! m =
                     area_row c (grp, HBtype, sigma, sigmaCorr, atomicNumber) ! m
                       + (if m = m1 then a1 else 0) + (if m = m2 then a2 else 0))"
  using assms by (rule add_twice_inv)

text \<open>
  Claim C10. The default constructor leaves the row template empty, so the first \<^verbatim>\<open>add\<close>
  with a non-zero area appends a row of length zero and its area write is out of bounds
  for every molecule index, index 0 included. For a collection constructed with
  \<^verbatim>\<open>segmentTypeCollection(n)\<close>, the area write of \<^verbatim>\<open>add\<close> is in bounds exactly when
  \<^verbatim>\<open>ind_molecule < n\<close>.
\<close>

theorem default_constructed_area_write_out_of_bounds:
  "SegmentTypeAreasRowTemplate segmentTypeCollection_default = [] \<and>
   SegmentTypeAreas (add_append segmentTypeCollection_default grp sigma sigmaCorr HBtype atomicNumber) = [[]] \<and>
   (Area \<noteq> 0 \<longrightarrow>
      add segmentTypeCollection_default ind_molecule grp sigma sigmaCorr HBtype atomicNumber Area
        = Inl OutOfBounds) \<and>
   (constructed_with n c \<and> Area \<noteq> 0 \<longrightarrow>
      ((\<exists>c'. add c ind_molecule grp sigma sigmaCorr HBtype atomicNumber Area = Inr c')
         \<longleftrightarrow> int ind_molecule < n) \<and>
      (\<not> int ind_molecule < n \<longrightarrow>
         add c ind_molecule grp sigma sigmaCorr HBtype atomicNumber Area = Inl OutOfBounds))"
proof -
  have d: "segmentTypeCollection_default = segmentTypeCollection_n 0"
    by (simp add: segmentTypeCollection_default_def segmentTypeCollection_n_def)
  have inv0: "registry_inv 0 segmentTypeCollection_default"
    using registry_inv_ctor [of 0] by (simp add: d)
  have 1: "SegmentTypeAreasRowTemplate segmentTypeCollection_default = []"
    by (simp add: segmentTypeCollection_default_def)
  have 2: "SegmentTypeAreas (add_append segmentTypeCollection_default grp sigma sigmaCorr HBtype atomicNumber) = [[]]"
    by (simp add: segmentTypeCollection_default_def add_append_def)
  have 3: "Area \<noteq> 0 \<longrightarrow>
      add segmentTypeCollection_default ind_molecule grp sigma sigmaCorr HBtype atomicNumber Area
        = Inl OutOfBounds"
    using add_fails_OutOfBounds [OF inv0, of Area ind_molecule] by simp
  have 4: "constructed_with n c \<and> Area \<noteq> 0 \<longrightarrow>
      ((\<exists>c'. add c ind_molecule grp sigma sigmaCorr HBtype atomicNumber Area = Inr c')
         \<longleftrightarrow> int ind_molecule < n) \<and>
      (\<not> int ind_molecule < n \<longrightarrow>
         add c ind_molecule grp sigma sigmaCorr HBtype atomicNumber Area = Inl OutOfBounds)"
  proof (intro impI, elim conjE)
    assume c: "constructed_with n c" and a: "Area \<noteq> 0"
    from c have inv: "registry_inv (nat n) c" by (rule constructed_with_inv)
    have "(\<exists>c'. add c ind_molecule grp sigma sigmaCorr HBtype atomicNumber Area = Inr c')
         \<longleftrightarrow> int ind_molecule < n"
      using add_succeeds_iff [OF inv a, of ind_molecule] by auto
    moreover have "\<not> int ind_molecule < n \<longrightarrow>
         add c ind_molecule grp sigma sigmaCorr HBtype atomicNumber Area = Inl OutOfBounds"
      using add_fails_OutOfBounds [OF inv a, of ind_molecule] by auto
    ultimately show "((\<exists>c'. add c ind_molecule grp sigma sigmaCorr HBtype atomicNumber Area = Inr c')
         \<longleftrightarrow> int ind_molecule < n) \<and>
      (\<not> int ind_molecule < n \<longrightarrow>
         add c ind_molecule grp sigma sigmaCorr HBtype atomicNumber Area = Inl OutOfBounds)" by blast
  qed
  from 1 2 3 4 show ?thesis by blast
qed

theorem default_constructed_area_write_witness:
  "constructed_with 2 (segmentTypeCollection_n 2) \<and> (1::real) \<noteq> 0 \<and>
   (\<exists>c'. add (segmentTypeCollection_n 2) 1 0 0 0 0 0 1 = Inr c') \<and>
   add (segmentTypeCollection_n 2) 2 0 0 0 0 0 1 = Inl OutOfBounds \<and>
   add segmentTypeCollection_default 0 0 0 0 0 0 1 = Inl OutOfBounds"
  using default_constructed_area_write_out_of_bounds
          [of 0 0 0 0 0 1 0 2 "segmentTypeCollection_n 2"]
        default_constructed_area_write_out_of_bounds
          [of 0 0 0 0 0 1 1 2 "segmentTypeCollection_n 2"]
        default_constructed_area_write_out_of_bounds
          [of 0 0 0 0 0 1 2 2 "segmentTypeCollection_n 2"]
        constructed [of 2]
  by simp

theorem add_same_key_twice_witness:
  "registry_inv 1 (segmentTypeCollection_n 1) \<and> (2::real) \<noteq> 0 \<and> (3::real) \<noteq> 0 \<and>
   (0::nat) < 1 \<and>
   (\<exists>c1 c2. add (segmentTypeCollection_n 1) 0 1 (1/100) (1/50) 2 6 2 = Inr c1 \<and>
      add c1 0 1 (1/100) (1/50) 2 6 3 = Inr c2 \<and>
      size_segments c2 = size_segments c1 \<and>
      count_list (segment_keys c2) (1, 2, 1/100, 1/50, 6) = 1 \<and>
      area_row c2 (1, 2, 1/100, 1/50, 6) ! 0 = 5)"
proof -
  have h: "registry_inv 1 (segmentTypeCollection_n 1)" using registry_inv_ctor [of 1] by simp
  have z: "area_row (segmentTypeCollection_n 1) (1, 2, 1/100, 1/50, 6) ! 0 = 0"
    by (simp add: area_row_def segment_keys_def segmentTypeCollection_n_def)
  from add_same_key_twice_accumulates [OF h, of 2 3 0 0 1 "1/100" "1/50" 2 6]
  obtain c1 c2 where c: "add (segmentTypeCollection_n 1) 0 1 (1/100) (1/50) 2 6 2 = Inr c1"
      "add c1 0 1 (1/100) (1/50) 2 6 3 = Inr c2"
      "size_segments c2 = size_segments c1"
      "count_list (segment_keys c2) (1, 2, 1/100, 1/50, 6) = 1"
      "\<forall>m < 1. area_row c2 (1, 2, 1/100, 1/50, 6) ! m =
          area_row (segmentTypeCollection_n 1) (1, 2, 1/100, 1/50, 6) ! m
            + (if m = 0 then 2 else 0) + (if m = 0 then 3 else 0)"
    by auto
  from c(5) z have "area_row c2 (1, 2, 1/100, 1/50, 6) ! 0 = 5" by simp
  with h c(1-4) show ?thesis by auto
qed

section \<open>Correctness of the in-place permutation\<close>

lemma vset_int [simp]: "k < length xs \<Longrightarrow> vset xs (int k) v = Inr (xs[k := v])"
  by (simp add: vset_def)

lemma vswap_int:
  "a < length xs \<Longrightarrow> b < length xs \<Longrightarrow> vswap xs (int a) (int b) = Inr (xs[a := xs ! b, b := xs ! a])"
  by (simp add: vswap_def)

lemma marked_update:
  "j < length done \<Longrightarrow> marked (done[j := True]) = insert j (marked done)"
  by (auto simp add: marked_def nth_list_update)

lemma marked_replicate [simp]: "marked (replicate n False) = {}"
  by (auto simp add: marked_def)

lemma marked_bound: "marked done \<subseteq> {..<length done}"
  by (auto simp add: marked_def)

lemma finite_marked [simp]: "finite (marked done)"
  using marked_bound [of "done"] by (rule finite_subset) simp

lemma card_marked_less:
  assumes "j < length done" "j \<notin> marked done"
  shows "card (marked done) < length done"
proof -
  have "marked done \<subset> {..<length done}" using assms marked_bound [of "done"] by auto
  then have "card (marked done) < card {..<length done}" by (intro psubset_card_mono) simp_all
  then show ?thesis by simp
qed

lemma perm_entry:
  assumes "perm_on p n" "k < n"
  shows "0 \<le> p ! k \<and> p ! k < int n"
proof -
  from assms have "p ! k \<in> set p" by (simp add: perm_on_def)
  with assms(1) show ?thesis by (simp add: perm_on_def)
qed

lemma perm_fun_less: "perm_on p n \<Longrightarrow> k < n \<Longrightarrow> perm_fun p k < n"
  using perm_entry [of p n k] by (auto simp add: perm_fun_def nat_less_iff)

lemma perm_nth: "perm_on p n \<Longrightarrow> k < n \<Longrightarrow> p ! k = int (perm_fun p k)"
  using perm_entry [of p n k] by (simp add: perm_fun_def)

lemma perm_fun_inj:
  assumes "perm_on p n" "k < n" "l < n" "perm_fun p k = perm_fun p l"
  shows "k = l"
proof -
  from assms have "p ! k = p ! l" by (simp add: perm_nth)
  with assms show ?thesis by (simp add: perm_on_def nth_eq_iff_index_eq)
qed

lemma permutation_cycle_correct:
  fixes v0 :: "'a list"
  assumes perm: "perm_on p n"
  shows "length vec = n \<Longrightarrow> length done = n \<Longrightarrow> a < n \<Longrightarrow> q < n \<Longrightarrow> done ! a \<Longrightarrow> done ! q \<Longrightarrow>
     perm_fun p ` (marked done - {q}) = marked done - {a} \<Longrightarrow>
     (\<forall>k\<in>marked done. k \<noteq> q \<longrightarrow> vec ! k = v0 ! perm_fun p k) \<Longrightarrow>
     vec ! q = v0 ! a \<Longrightarrow>
     (\<forall>k<n. k \<notin> marked done \<longrightarrow> vec ! k = v0 ! k) \<Longrightarrow>
     \<exists>vec' done'. permutation_cycle p (int a) vec done (int q) (p ! q) = Some (Inr (vec', done')) \<and>
        length vec' = n \<and> length done' = n \<and> marked done \<subseteq> marked done' \<and>
        perm_fun p ` marked done' = marked done' \<and>
        (\<forall>k\<in>marked done'. vec' ! k = v0 ! perm_fun p k) \<and>
        (\<forall>k<n. k \<notin> marked done' \<longrightarrow> vec' ! k = v0 ! k)"
proof (induction "n - card (marked done)" arbitrary: vec "done" q rule: less_induct)
  case less
  let ?D = "marked done"
  let ?j = "perm_fun p q"
  have pq: "p ! q = int ?j" using perm less.prems(4) by (rule perm_nth)
  have jn: "?j < n" using perm less.prems(4) by (rule perm_fun_less)
  have aD: "a \<in> ?D" and qD: "q \<in> ?D" using less.prems by (simp_all add: marked_def)
  show ?case
  proof (cases "?j = a")
    case True
    have res: "permutation_cycle p (int a) vec done (int q) (p ! q) = Some (Inr (vec, done))"
      by (subst permutation_cycle.simps) (simp add: pq True)
    have "perm_fun p ` ?D = perm_fun p ` (insert q (?D - {q}))"
      by (simp only: insert_Diff [OF qD])
    also have "\<dots> = insert (perm_fun p q) (perm_fun p ` (?D - {q}))" by (rule image_insert)
    also have "\<dots> = insert a (?D - {a})" by (simp only: less.prems(7) True)
    also have "\<dots> = ?D" by (rule insert_Diff [OF aD])
    finally have closed: "perm_fun p ` ?D = ?D" .
    have vals: "\<forall>k\<in>?D. vec ! k = v0 ! perm_fun p k"
      using less.prems(8,9) True by auto
    from res closed vals less.prems(1,2,10) show ?thesis by auto
  next
    case False
    have jD: "?j \<notin> ?D"
    proof
      assume "?j \<in> ?D"
      with False have "?j \<in> ?D - {a}" by simp
      then have "?j \<in> perm_fun p ` (?D - {q})" by (simp only: less.prems(7))
      then obtain k where k0: "k \<in> ?D - {q}" "?j = perm_fun p k" by (rule imageE)
      then have k: "k \<in> ?D" "k \<noteq> q" "perm_fun p k = ?j" by simp_all
      from k(1) less.prems(2) have "k < n" by (simp add: marked_def)
      from perm this less.prems(4) k(3) have "k = q" by (rule perm_fun_inj)
      with k(2) show False by simp
    qed
    have qj: "q \<noteq> ?j" using qD jD by auto
    let ?vec1 = "vec[q := vec ! ?j, ?j := vec ! q]"
    let ?done1 = "done[?j := True]"
    have unfold: "permutation_cycle p (int a) vec done (int q) (p ! q) =
          permutation_cycle p (int a) ?vec1 ?done1 (int ?j) (p ! ?j)"
      using False jn less.prems(1,2,4) perm
      by (subst permutation_cycle.simps) (simp add: pq vswap_int perm_on_def)
    have D1: "marked ?done1 = insert ?j ?D" using jn less.prems(2) by (simp add: marked_update)
    have meas: "n - card (marked ?done1) < n - card ?D"
      using card_marked_less [of ?j "done"] jn jD less.prems(2) by (simp add: D1)
    have E1: "perm_fun p ` (marked ?done1 - {?j}) = marked ?done1 - {a}"
    proof -
      have "marked ?done1 - {?j} = insert q (?D - {q})" using jD qD by (auto simp add: D1)
      then have "perm_fun p ` (marked ?done1 - {?j}) = perm_fun p ` (insert q (?D - {q}))"
        by (simp only:)
      also have "\<dots> = insert ?j (perm_fun p ` (?D - {q}))" by (rule image_insert)
      also have "\<dots> = insert ?j (?D - {a})" by (simp only: less.prems(7))
      also have "\<dots> = marked ?done1 - {a}" using False by (auto simp add: D1)
      finally show ?thesis .
    qed
    have b1: "\<forall>k\<in>marked ?done1. k \<noteq> ?j \<longrightarrow> ?vec1 ! k = v0 ! perm_fun p k"
    proof (intro ballI impI)
      fix k assume k: "k \<in> marked ?done1" "k \<noteq> ?j"
      then have kD: "k \<in> ?D" by (simp add: D1)
      show "?vec1 ! k = v0 ! perm_fun p k"
      proof (cases "k = q")
        case True
        have "?vec1 ! q = vec ! ?j" using qj less.prems(1,4) by simp
        also have "\<dots> = v0 ! ?j" using less.prems(10) jn jD by simp
        finally show ?thesis using True by simp
      next
        case False
        then have "?vec1 ! k = vec ! k" using k(2) by simp
        with less.prems(8) kD False show ?thesis by simp
      qed
    qed
    have c1: "?vec1 ! ?j = v0 ! a" using less.prems(1,9) jn by simp
    have d1: "\<forall>k<n. k \<notin> marked ?done1 \<longrightarrow> ?vec1 ! k = v0 ! k"
    proof (intro allI impI)
      fix k assume k: "k < n" "k \<notin> marked ?done1"
      then have "k \<noteq> ?j" "k \<notin> ?D" by (simp_all add: D1)
      moreover from this qD have "k \<noteq> q" by auto
      ultimately show "?vec1 ! k = v0 ! k" using less.prems(10) k(1) by simp
    qed
    have "\<exists>vec' done'. permutation_cycle p (int a) ?vec1 ?done1 (int ?j) (p ! ?j) = Some (Inr (vec', done')) \<and>
        length vec' = n \<and> length done' = n \<and> marked ?done1 \<subseteq> marked done' \<and>
        perm_fun p ` marked done' = marked done' \<and>
        (\<forall>k\<in>marked done'. vec' ! k = v0 ! perm_fun p k) \<and>
        (\<forall>k<n. k \<notin> marked done' \<longrightarrow> vec' ! k = v0 ! k)"
    proof (rule less.hyps [OF meas])
      show "length ?vec1 = n" using less.prems(1) by simp
      show "length ?done1 = n" using less.prems(2) by simp
      show "a < n" by fact
      show "?j < n" by fact
      show "?done1 ! a" using less.prems(2,3,5) jn by (simp add: nth_list_update)
      show "?done1 ! ?j" using less.prems(2) jn by simp
      show "perm_fun p ` (marked ?done1 - {?j}) = marked ?done1 - {a}" by fact
      show "\<forall>k\<in>marked ?done1. k \<noteq> ?j \<longrightarrow> ?vec1 ! k = v0 ! perm_fun p k" by fact
      show "?vec1 ! ?j = v0 ! a" by fact
      show "\<forall>k<n. k \<notin> marked ?done1 \<longrightarrow> ?vec1 ! k = v0 ! k" by fact
    qed
    then show ?thesis unfolding unfold using D1 by auto
  qed
qed

lemma permutation_loop_correct:
  fixes v0 :: "'a list"
  assumes perm: "perm_on p n"
  shows "length vec = n \<Longrightarrow> length done = n \<Longrightarrow> a \<le> n \<Longrightarrow>
     perm_fun p ` marked done = marked done \<Longrightarrow>
     (\<forall>k<a. k \<in> marked done) \<Longrightarrow>
     (\<forall>k\<in>marked done. vec ! k = v0 ! perm_fun p k) \<Longrightarrow>
     (\<forall>k<n. k \<notin> marked done \<longrightarrow> vec ! k = v0 ! k) \<Longrightarrow>
     \<exists>vec'. permutation_loop p (map int [a..<n]) vec done = Some (Inr vec') \<and>
        length vec' = n \<and> (\<forall>k<n. vec' ! k = v0 ! perm_fun p k)"
proof (induction "n - a" arbitrary: a vec "done")
  case 0
  then have "a = n" by simp
  with 0 show ?case by auto
next
  case (Suc m)
  then have an: "a < n" by simp
  then have range: "map int [a..<n] = int a # map int [Suc a..<n]" by (simp add: upt_conv_Cons)
  have m: "m = n - Suc a" using Suc.hyps(2) by simp
  show ?case
  proof (cases "done ! a")
    case True
    have step: "permutation_loop p (map int [a..<n]) vec done =
                permutation_loop p (map int [Suc a..<n]) vec done"
      using True an Suc.prems(2) by (simp add: range)
    have all: "\<forall>k<Suc a. k \<in> marked done"
      using Suc.prems(5) True an Suc.prems(2) by (auto simp add: less_Suc_eq marked_def)
    from Suc.hyps(1) [OF m Suc.prems(1,2) _ Suc.prems(4) all Suc.prems(6,7)] an
    show ?thesis unfolding step by simp
  next
    case False
    let ?done1 = "done[a := True]"
    have aD: "a \<notin> marked done" using False by (simp add: marked_def)
    have D1: "marked ?done1 = insert a (marked done)"
      using an Suc.prems(2) by (simp add: marked_update)
    have "\<exists>vec' done'. permutation_cycle p (int a) vec ?done1 (int a) (p ! a) = Some (Inr (vec', done')) \<and>
        length vec' = n \<and> length done' = n \<and> marked ?done1 \<subseteq> marked done' \<and>
        perm_fun p ` marked done' = marked done' \<and>
        (\<forall>k\<in>marked done'. vec' ! k = v0 ! perm_fun p k) \<and>
        (\<forall>k<n. k \<notin> marked done' \<longrightarrow> vec' ! k = v0 ! k)"
    proof (rule permutation_cycle_correct [OF perm])
      show "length vec = n" by fact
      show "length ?done1 = n" using Suc.prems(2) by simp
      show "a < n" by fact
      show "a < n" by fact
      show "?done1 ! a" using an Suc.prems(2) by simp
      show "?done1 ! a" using an Suc.prems(2) by simp
      have "marked ?done1 - {a} = marked done" using aD by (auto simp add: D1)
      then show "perm_fun p ` (marked ?done1 - {a}) = marked ?done1 - {a}"
        using Suc.prems(4) by simp
      show "\<forall>k\<in>marked ?done1. k \<noteq> a \<longrightarrow> vec ! k = v0 ! perm_fun p k"
        using Suc.prems(6) by (simp add: D1)
      show "vec ! a = v0 ! a" using Suc.prems(7) an aD by simp
      show "\<forall>k<n. k \<notin> marked ?done1 \<longrightarrow> vec ! k = v0 ! k"
        using Suc.prems(7) by (simp add: D1)
    qed
    then obtain vec' done' where
      cyc: "permutation_cycle p (int a) vec ?done1 (int a) (p ! a) = Some (Inr (vec', done'))"
      and l: "length vec' = n" "length done' = n"
      and sub: "marked ?done1 \<subseteq> marked done'"
      and closed: "perm_fun p ` marked done' = marked done'"
      and vals: "\<forall>k\<in>marked done'. vec' ! k = v0 ! perm_fun p k"
      and rest: "\<forall>k<n. k \<notin> marked done' \<longrightarrow> vec' ! k = v0 ! k"
      by blast
    have step: "permutation_loop p (map int [a..<n]) vec done =
                permutation_loop p (map int [Suc a..<n]) vec' done'"
      using False an Suc.prems(2) perm cyc by (simp add: range perm_on_def)
    have all: "\<forall>k<Suc a. k \<in> marked done'"
      using Suc.prems(5) sub by (auto simp add: less_Suc_eq D1)
    from Suc.hyps(1) [OF m l _ closed all vals rest] an
    show ?thesis unfolding step by simp
  qed
qed

theorem apply_vector_permutation_in_place_correct:
  assumes "perm_on p (length vec)"
  shows "apply_vector_permutation_in_place vec p =
           Some (Inr (map (\<lambda>k. vec ! perm_fun p k) [0..<length vec]))"
proof -
  let ?n = "length vec"
  have "\<exists>vec'. permutation_loop p (map int [0..<?n]) vec (replicate ?n False) = Some (Inr vec') \<and>
        length vec' = ?n \<and> (\<forall>k<?n. vec' ! k = vec ! perm_fun p k)"
    by (rule permutation_loop_correct [OF assms]) simp_all
  then obtain vec' where r: "permutation_loop p (map int [0..<?n]) vec (replicate ?n False) = Some (Inr vec')"
    "length vec' = ?n" "\<forall>k<?n. vec' ! k = vec ! perm_fun p k" by blast
  from r(2,3) have "vec' = map (\<lambda>k. vec ! perm_fun p k) [0..<?n]"
    by (intro nth_equalityI) simp_all
  with r(1) show ?thesis by (simp add: apply_vector_permutation_in_place_def indices_def)
qed

section \<open>The permutation vector\<close>

lemma set_insert_sorted [simp]: "set (insert_sorted cmp x ys) = insert x (set ys)"
  by (induction ys) auto

lemma length_insert_sorted [simp]: "length (insert_sorted cmp x ys) = Suc (length ys)"
  by (induction ys) auto

lemma distinct_insert_sorted: "x \<notin> set ys \<Longrightarrow> distinct ys \<Longrightarrow> distinct (insert_sorted cmp x ys)"
  by (induction ys) auto

lemma set_std_sort [simp]: "set (std_sort cmp xs) = set xs"
  by (induction xs) (simp_all add: std_sort_def)

lemma length_std_sort [simp]: "length (std_sort cmp xs) = length xs"
  by (induction xs) (simp_all add: std_sort_def)

lemma distinct_std_sort: "distinct xs \<Longrightarrow> distinct (std_sort cmp xs)"
proof (induction xs)
  case Nil
  then show ?case by (simp add: std_sort_def)
next
  case (Cons x xs)
  then have "distinct (std_sort cmp xs)" "x \<notin> set (std_sort cmp xs)" by simp_all
  then have "distinct (insert_sorted cmp x (std_sort cmp xs))" by (simp add: distinct_insert_sorted)
  then show ?case by (simp add: std_sort_def)
qed

lemma sorted_wrt_insert_sorted:
  assumes lin: "strict_linear_on S cmp" and x: "x \<in> S" "x \<notin> set ys" and ys: "set ys \<subseteq> S" "sorted_wrt cmp ys"
  shows "sorted_wrt cmp (insert_sorted cmp x ys)"
  using x ys
proof (induction ys)
  case Nil
  then show ?case by simp
next
  case (Cons y ys)
  show ?case
  proof (cases "cmp x y")
    case True
    have "\<forall>z\<in>set ys. cmp x z"
    proof
      fix z assume z: "z \<in> set ys"
      with Cons.prems have "cmp y z" "z \<in> S" "y \<in> S" by auto
      with True lin Cons.prems(1) show "cmp x z" unfolding strict_linear_on_def by blast
    qed
    with True Cons.prems show ?thesis by simp
  next
    case False
    from Cons.prems have "x \<noteq> y" "y \<in> S" by auto
    with False lin Cons.prems(1) have yx: "cmp y x" unfolding strict_linear_on_def by blast
    have "sorted_wrt cmp (insert_sorted cmp x ys)" using Cons by simp
    with False yx Cons.prems show ?thesis by simp
  qed
qed

lemma sorted_wrt_std_sort:
  assumes lin: "strict_linear_on S cmp"
  shows "set xs \<subseteq> S \<Longrightarrow> distinct xs \<Longrightarrow> sorted_wrt cmp (std_sort cmp xs)"
proof (induction xs)
  case Nil
  then show ?case by (simp add: std_sort_def)
next
  case (Cons x xs)
  then have "sorted_wrt cmp (std_sort cmp xs)" by simp
  with lin Cons.prems have "sorted_wrt cmp (insert_sorted cmp x (std_sort cmp xs))"
    by (intro sorted_wrt_insert_sorted [where S = S]) simp_all
  then show ?case by (simp add: std_sort_def)
qed

lemma std_sort_sorted: "sorted_wrt cmp xs \<Longrightarrow> std_sort cmp xs = xs"
proof (induction xs)
  case Nil
  then show ?case by (simp add: std_sort_def)
next
  case (Cons x xs)
  then have "std_sort cmp (x # xs) = insert_sorted cmp x xs" by (simp add: std_sort_def)
  also have "\<dots> = x # xs" using Cons.prems by (cases xs) simp_all
  finally show ?case .
qed

lemma lex_step:
  fixes a b :: "'a::linorder" and x y :: "'b::linorder"
  shows "(a, x) < (b, y) \<longleftrightarrow> (if a \<noteq> b then a < b else x < y)"
  by (auto simp add: less_prod_def)

lemma permutation_less_key: "permutation_less c i j \<longleftrightarrow> tier_key c i < tier_key c j"
  unfolding tier_key_def lex_step permutation_less_def by auto

lemma tier_key_inj: "tier_key c i = tier_key c j \<Longrightarrow> i = j"
  by (simp add: tier_key_def)

lemma permutation_less_trans:
  "permutation_less c i j \<Longrightarrow> permutation_less c j k \<Longrightarrow> permutation_less c i k"
  unfolding permutation_less_key by (rule less_trans)

lemma permutation_less_total:
  "i \<noteq> j \<Longrightarrow> permutation_less c i j \<or> permutation_less c j i"
  unfolding permutation_less_key
  using tier_key_inj [of c i j] less_linear [of "tier_key c i" "tier_key c j"] by blast

lemma permutation_less_linear: "strict_linear_on S (permutation_less c)"
  unfolding strict_linear_on_def using permutation_less_trans permutation_less_total by blast

lemma permutation_less_transfer:
  assumes "permutation_less c i j" "a < b"
    and "SegmentTypeGroup c' ! nat a = SegmentTypeGroup c ! nat i"
        "SegmentTypeGroup c' ! nat b = SegmentTypeGroup c ! nat j"
        "SegmentTypeAtomicNumber c' ! nat a = SegmentTypeAtomicNumber c ! nat i"
        "SegmentTypeAtomicNumber c' ! nat b = SegmentTypeAtomicNumber c ! nat j"
        "SegmentTypeSigma c' ! nat a = SegmentTypeSigma c ! nat i"
        "SegmentTypeSigma c' ! nat b = SegmentTypeSigma c ! nat j"
        "SegmentTypeSigmaCorr c' ! nat a = SegmentTypeSigmaCorr c ! nat i"
        "SegmentTypeSigmaCorr c' ! nat b = SegmentTypeSigmaCorr c ! nat j"
        "SegmentTypeHBtype c' ! nat a = SegmentTypeHBtype c ! nat i"
        "SegmentTypeHBtype c' ! nat b = SegmentTypeHBtype c ! nat j"
  shows "permutation_less c' a b"
  using assms(1,2) unfolding permutation_less_def assms(3-12) by (simp split: if_splits)

lemma length_gather [simp]: "length (gather vec p) = length vec"
  by (simp add: gather_def)

lemma nth_gather [simp]: "k < length vec \<Longrightarrow> gather vec p ! k = vec ! nat (p ! k)"
  by (simp add: gather_def)

lemma gather_indices: "gather vec (indices (length vec)) = vec"
  by (intro nth_equalityI) (simp_all add: indices_def)

lemma perm_on_indices: "perm_on (indices n) n"
  by (auto simp add: perm_on_def indices_def distinct_map inj_on_def)

lemma apply_vector_permutation_gather:
  "perm_on p (length vec) \<Longrightarrow> apply_vector_permutation_in_place vec p = Some (Inr (gather vec p))"
  by (simp add: apply_vector_permutation_in_place_correct gather_def perm_fun_def)

lemma perm_on_std_sort: "perm_on (std_sort cmp (indices n)) n"
  using perm_on_indices [of n] by (simp add: perm_on_def distinct_std_sort)

lemma get_permutation_vector_parallel:
  assumes "parallel_vectors c"
  shows "get_permutation_vector c =
           Inr (std_sort (permutation_less c) (indices (size_segments c)))"
  using assms by (simp add: get_permutation_vector_def parallel_vectors_def size_segments_def)

lemma sort_parallel:
  assumes "parallel_vectors c"
  shows "sort_segments c = Some (sort_bounds
           (permuted c (std_sort (permutation_less c) (indices (size_segments c)))))"
proof -
  let ?p = "std_sort (permutation_less c) (indices (size_segments c))"
  have p: "perm_on ?p (size_segments c)" by (rule perm_on_std_sort)
  have l: "length (SegmentTypeGroup c) = size_segments c" "length (SegmentTypeSigma c) = size_segments c"
    "length (SegmentTypeSigmaCorr c) = size_segments c" "length (SegmentTypeHBtype c) = size_segments c"
    "length (SegmentTypeAtomicNumber c) = size_segments c" "length (SegmentTypeAreas c) = size_segments c"
    using assms by (simp_all add: parallel_vectors_def size_segments_def)
  show ?thesis
    unfolding sort_segments_def get_permutation_vector_parallel [OF assms]
    using p by (simp add: obind_def apply_vector_permutation_gather l permuted_def)
qed

lemma sorted_permuted:
  assumes par: "parallel_vectors c"
  defines "p \<equiv> std_sort (permutation_less c) (indices (size_segments c))"
  shows "sorted_wrt (permutation_less (permuted c p)) (indices (size_segments c))"
proof -
  let ?n = "size_segments c"
  have l: "length (SegmentTypeGroup c) = ?n" "length (SegmentTypeSigma c) = ?n"
    "length (SegmentTypeSigmaCorr c) = ?n" "length (SegmentTypeHBtype c) = ?n"
    "length (SegmentTypeAtomicNumber c) = ?n"
    using par by (simp_all add: parallel_vectors_def size_segments_def)
  have sp: "sorted_wrt (permutation_less c) p"
    unfolding p_def
    by (rule sorted_wrt_std_sort [OF permutation_less_linear [of UNIV]])
       (simp_all add: indices_def distinct_map inj_on_def)
  have lp: "length p = ?n" by (simp add: p_def indices_def)
  show ?thesis
    unfolding sorted_wrt_iff_nth_less
  proof (intro allI impI)
    fix a b assume ab: "a < b" "b < length (indices ?n)"
    then have b: "b < ?n" and a: "a < ?n" by (simp_all add: indices_def)
    from sp ab a b lp have "permutation_less c (p ! a) (p ! b)"
      by (simp add: sorted_wrt_iff_nth_less)
    then have "permutation_less (permuted c p) (int a) (int b)"
      by (rule permutation_less_transfer) (use ab a b l in \<open>simp_all add: permuted_def\<close>)
    then show "permutation_less (permuted c p) (indices ?n ! a) (indices ?n ! b)"
      using a b by (simp add: indices_def)
  qed
qed

section \<open>The group bounds written by \<^verbatim>\<open>sort\<close>\<close>

lemma writes_Nil [simp]: "writes [] xs = xs"
  by (simp add: writes_def)

lemma writes_Cons [simp]: "writes ((k, v) # W) xs = writes W (xs[k := v])"
  by (simp add: writes_def)

lemma writes_append [simp]: "writes (W @ W') xs = writes W' (writes W xs)"
  by (simp add: writes_def)

lemma length_writes [simp]: "length (writes W xs) = length xs"
  by (induction W arbitrary: xs) auto

lemma writes_nth:
  "j < length xs \<Longrightarrow>
   writes W xs ! j = (case map_of (rev W) j of None \<Rightarrow> xs ! j | Some v \<Rightarrow> v)"
proof (induction W arbitrary: xs)
  case Nil
  then show ?case by simp
next
  case (Cons w W)
  obtain k v where w: "w = (k, v)" by (cases w)
  show ?case using Cons.prems
    by (simp add: w Cons.IH map_add_def nth_list_update split: option.splits)
qed

lemma writes_idem: "writes W (writes W xs) = writes W xs"
  by (intro nth_equalityI) (simp_all add: writes_nth split: option.splits)

lemma writes_untouched:
  "j \<notin> fst ` set W \<Longrightarrow> writes W xs ! j = xs ! j"
  by (induction W arbitrary: xs) (auto simp add: nth_list_update_neq)

lemma group_scan_trace:
  assumes gs: "\<forall>g\<in>set gs. g < 7"
  shows "\<forall>i\<in>set ks. i < length gs \<Longrightarrow> t = - 1 \<or> (0 \<le> t \<and> t < 7) \<Longrightarrow>
         length lower = 7 \<Longrightarrow> length upper = 7 \<Longrightarrow>
         group_scan gs (map int ks) t lower upper =
           Inr (scan_last gs ks t, writes (lower_writes gs ks t) lower,
                writes (upper_writes gs ks t) upper)"
proof (induction ks arbitrary: t lower upper)
  case Nil
  then show ?case by simp
next
  case (Cons i ks)
  from Cons.prems(1) have i: "i < length gs" by simp
  with gs have g: "gs ! i < 7" by simp
  have rest: "\<forall>i\<in>set ks. i < length gs" using Cons.prems(1) by simp
  have t': "int (gs ! i) = - 1 \<or> (0 \<le> int (gs ! i) \<and> int (gs ! i) < 7)" using g by simp
  show ?case
  proof (cases "t = int (gs ! i)")
    case True
    with Cons.IH [OF rest t' Cons.prems(3,4)] i show ?thesis by simp
  next
    case False
    show ?thesis
    proof (cases "t = - 1")
      case True
      with False Cons.IH [OF rest t', of "lower[gs ! i := int i]" upper] i g Cons.prems(3,4)
      show ?thesis by simp
    next
      case t: False
      with Cons.prems(2) have tr: "0 \<le> t" "t < 7" by simp_all
      then have "vset upper t (int i) = Inr (upper[nat t := int i])"
        using Cons.prems(4) by (simp add: vset_def)
      with False t Cons.IH [OF rest t', of "lower[gs ! i := int i]" "upper[nat t := int i]"]
        i g Cons.prems(3,4)
      show ?thesis by simp
    qed
  qed
qed

lemma lower_writes_keys: "\<forall>i\<in>set ks. i < length gs \<Longrightarrow> fst ` set (lower_writes gs ks t) \<subseteq> set gs"
  by (induction ks arbitrary: t) auto

lemma upper_writes_keys:
  "\<forall>i\<in>set ks. i < length gs \<Longrightarrow>
   fst ` set (upper_writes gs ks t) \<subseteq> (if t = - 1 then {} else {nat t}) \<union> set gs"
proof (induction ks arbitrary: t)
  case Nil
  then show ?case by simp
next
  case (Cons i ks)
  have rest: "\<forall>i\<in>set ks. i < length gs" using Cons.prems by simp
  have "fst ` set (upper_writes gs ks (int (gs ! i))) \<subseteq> {gs ! i} \<union> set gs"
    using Cons.IH [OF rest, of "int (gs ! i)"] by simp
  moreover have "gs ! i \<in> set gs" using Cons.prems by simp
  ultimately show ?case by (auto split: if_splits)
qed

lemma scan_last_upt:
  "0 < n \<Longrightarrow> scan_last gs [0..<n] t = int (gs ! (n - 1))"
proof (induction n arbitrary: t)
  case 0
  then show ?case by simp
next
  case (Suc n)
  have "\<And>ks t. scan_last gs (ks @ [n]) t = int (gs ! n)"
  proof -
    fix ks t show "scan_last gs (ks @ [n]) t = int (gs ! n)"
      by (induction ks arbitrary: t) simp_all
  qed
  then show ?case by simp
qed

lemma group_counts_trace:
  "\<forall>i\<in>set ks. i < length lower \<and> i < length upper \<and> i < length counts \<Longrightarrow>
   group_counts (map int ks) lower upper counts = Inr (writes (count_writes lower upper ks) counts)"
  by (induction ks arbitrary: counts) (simp_all add: count_writes_def)

lemma sort_bounds_nonempty:
  assumes l: "length (lowerBoundIndexForGroup c) = 7" "length (upperBoundIndexForGroup c) = 7"
      "length (numberOfSegmentsForGroup c) = 7"
    and gs: "\<forall>g\<in>set (SegmentTypeGroup c). g < 7"
    and n: "length (SegmentTypeGroup c) = size_segments c" "0 < size_segments c"
  shows "sort_bounds c = Inr (bounds_after c)"
proof -
  let ?gs = "SegmentTypeGroup c" and ?n = "size_segments c"
  have scan: "group_scan ?gs (indices ?n) (- 1) (lowerBoundIndexForGroup c) (upperBoundIndexForGroup c) =
      Inr (scan_last ?gs [0..<?n] (- 1), writes (lower_writes ?gs [0..<?n] (- 1)) (lowerBoundIndexForGroup c),
           writes (upper_writes ?gs [0..<?n] (- 1)) (upperBoundIndexForGroup c))"
    unfolding indices_def using n l by (intro group_scan_trace [OF gs]) simp_all
  have last: "scan_last ?gs [0..<?n] (- 1) = int (?gs ! (?n - 1))" using n(2) by (rule scan_last_upt)
  have "?gs ! (?n - 1) \<in> set ?gs" using n by simp
  with gs have g7: "?gs ! (?n - 1) < 7" by blast
  have cnt: "\<And>L U. length L = 7 \<Longrightarrow> length U = 7 \<Longrightarrow>
      group_counts (indices 7) L U (numberOfSegmentsForGroup c) =
        Inr (writes (count_writes L U [0..<7]) (numberOfSegmentsForGroup c))"
    unfolding indices_def using l(3) by (intro group_counts_trace) simp
  show ?thesis
    unfolding sort_bounds_def scan last
    using g7 l by (simp add: cnt bounds_after_def Let_def)
qed

lemma sort_bounds_empty:
  assumes "size_segments c = 0"
  shows "sort_bounds c = Inl OutOfBounds"
  using assms by (simp add: sort_bounds_def indices_def vset_def)

lemma bounds_after_idem:
  "bounds_after (bounds_after c) = bounds_after c"
  by (simp add: bounds_after_def Let_def size_segments_def writes_idem
           del: writes_append)

lemma set_perm_on:
  assumes "perm_on p n"
  shows "set p = int ` {..<n}"
proof -
  have sub: "set p \<subseteq> int ` {..<n}"
  proof
    fix x assume "x \<in> set p"
    with assms have "0 \<le> x" "x < int n" by (simp_all add: perm_on_def)
    then have "x = int (nat x)" "nat x < n" by simp_all
    then show "x \<in> int ` {..<n}" by blast
  qed
  have "card (set p) = n" using assms by (simp add: perm_on_def distinct_card)
  moreover have "card (int ` {..<n}) = n" by (simp add: card_image)
  ultimately show ?thesis using sub by (intro card_subset_eq) simp_all
qed

lemma set_gather:
  assumes "perm_on p (length vec)"
  shows "set (gather vec p) = set vec"
proof -
  have "set (gather vec p) = (\<lambda>k. vec ! nat (p ! k)) ` {..<length vec}"
    by (simp add: gather_def atLeast0LessThan)
  also have "\<dots> = (\<lambda>x. vec ! nat x) ` ((\<lambda>k. p ! k) ` {..<length vec})" by (simp add: image_image)
  also have "(\<lambda>k. p ! k) ` {..<length vec} = set p"
    using assms by (auto simp add: perm_on_def set_conv_nth)
  also have "set p = int ` {..<length vec}" using assms by (rule set_perm_on)
  also have "(\<lambda>x. vec ! nat x) ` (int ` {..<length vec}) = set vec"
    by (auto simp add: image_image set_conv_nth)
  finally show ?thesis .
qed

lemma sortable_permuted:
  assumes "sortable c" "perm_on p (size_segments c)"
  shows "sortable (permuted c p)"
proof -
  have "length (SegmentTypeGroup c) = size_segments c"
    using assms(1) by (simp add: sortable_def parallel_vectors_def size_segments_def)
  with assms(2) have "set (gather (SegmentTypeGroup c) p) = set (SegmentTypeGroup c)"
    by (intro set_gather) simp
  then show ?thesis
    using assms(1) by (simp add: sortable_def parallel_vectors_def permuted_def list_all_iff)
qed

lemma size_permuted [simp]: "size_segments (permuted c p) = size_segments c"
  by (simp add: size_segments_def permuted_def)

lemma sort_sortable:
  assumes ok: "sortable c" and ne: "SegmentTypeGroup c \<noteq> []"
  shows "sort_segments c = Some (Inr (bounds_after (permuted c (sort_permutation c))))"
proof -
  let ?p = "sort_permutation c"
  have par: "parallel_vectors c" using ok by (simp add: sortable_def)
  have p: "perm_on ?p (size_segments c)" unfolding sort_permutation_def by (rule perm_on_std_sort)
  have ok': "sortable (permuted c ?p)" using ok p by (rule sortable_permuted)
  have n: "length (SegmentTypeGroup c) = size_segments c"
    using par by (simp add: parallel_vectors_def size_segments_def)
  have "sort_bounds (permuted c ?p) = Inr (bounds_after (permuted c ?p))"
  proof (rule sort_bounds_nonempty)
    show "\<forall>g\<in>set (SegmentTypeGroup (permuted c ?p)). g < 7"
      using ok' by (auto simp add: sortable_def list_all_iff)
    show "length (SegmentTypeGroup (permuted c ?p)) = size_segments (permuted c ?p)"
      using n by (simp add: permuted_def size_segments_def)
    show "0 < size_segments (permuted c ?p)" using ne n by (cases "SegmentTypeGroup c") auto
  qed (use ok' in \<open>simp_all add: sortable_def\<close>)
  then show ?thesis using sort_parallel [OF par] by (simp add: sort_permutation_def)
qed

lemma permutation_less_cong:
  assumes "SegmentTypeGroup c' = SegmentTypeGroup c" "SegmentTypeAtomicNumber c' = SegmentTypeAtomicNumber c"
    "SegmentTypeSigma c' = SegmentTypeSigma c" "SegmentTypeSigmaCorr c' = SegmentTypeSigmaCorr c"
    "SegmentTypeHBtype c' = SegmentTypeHBtype c"
  shows "permutation_less c' = permutation_less c"
  by (intro ext) (simp add: permutation_less_def assms)

lemma sort_idempotent:
  assumes ok: "sortable c" and ne: "SegmentTypeGroup c \<noteq> []"
  defines "c' \<equiv> bounds_after (permuted c (sort_permutation c))"
  shows "sort_segments c' = Some (Inr c')"
proof -
  let ?p = "sort_permutation c"
  let ?d = "permuted c ?p"
  let ?n = "size_segments c"
  have par: "parallel_vectors c" using ok by (simp add: sortable_def)
  have p: "perm_on ?p ?n" unfolding sort_permutation_def by (rule perm_on_std_sort)
  have okd: "sortable ?d" using ok p by (rule sortable_permuted)
  have pard: "parallel_vectors ?d" using okd by (simp add: sortable_def)
  have less: "permutation_less c' = permutation_less ?d"
    unfolding c'_def by (rule permutation_less_cong) (simp_all add: bounds_after_def Let_def)
  have size: "size_segments c' = ?n"
    unfolding c'_def by (simp add: bounds_after_def Let_def size_segments_def permuted_def)
  have "sorted_wrt (permutation_less ?d) (indices ?n)"
    unfolding sort_permutation_def using par by (rule sorted_permuted)
  then have id: "sort_permutation c' = indices ?n"
    unfolding sort_permutation_def less size by (rule std_sort_sorted)
  have l: "length (SegmentTypeGroup c') = ?n" "length (SegmentTypeSigma c') = ?n"
    "length (SegmentTypeSigmaCorr c') = ?n" "length (SegmentTypeHBtype c') = ?n"
    "length (SegmentTypeAtomicNumber c') = ?n" "length (SegmentTypeAreas c') = ?n"
    using par unfolding c'_def
    by (simp_all add: bounds_after_def Let_def parallel_vectors_def size_segments_def permuted_def)
  have same: "permuted c' (indices ?n) = c'"
    using l gather_indices [of "SegmentTypeGroup c'"] gather_indices [of "SegmentTypeSigma c'"]
      gather_indices [of "SegmentTypeSigmaCorr c'"] gather_indices [of "SegmentTypeHBtype c'"]
      gather_indices [of "SegmentTypeAtomicNumber c'"] gather_indices [of "SegmentTypeAreas c'"]
    by (simp add: permuted_def)
  have ok': "sortable c'"
    using okd unfolding c'_def
    by (simp add: sortable_def bounds_after_def Let_def parallel_vectors_def)
  have ne': "SegmentTypeGroup c' \<noteq> []"
    using ne l(1) par by (auto simp add: parallel_vectors_def size_segments_def)
  have "sort_segments c' = Some (Inr (bounds_after (permuted c' (sort_permutation c'))))"
    using ok' ne' by (rule sort_sortable)
  also have "bounds_after (permuted c' (sort_permutation c')) = bounds_after c'"
    by (simp add: id same)
  also have "\<dots> = c'" unfolding c'_def by (rule bounds_after_idem)
  finally show ?thesis .
qed

lemma sort_stable:
  assumes par: "parallel_vectors c"
    and ab: "a < b" "b < size_segments c"
    and eq: "segment_keys c ! nat (sort_permutation c ! a) = segment_keys c ! nat (sort_permutation c ! b)"
  shows "sort_permutation c ! a < sort_permutation c ! b"
proof -
  let ?p = "sort_permutation c" and ?n = "size_segments c"
  have p: "perm_on ?p ?n" unfolding sort_permutation_def by (rule perm_on_std_sort)
  have sp: "sorted_wrt (permutation_less c) ?p"
    unfolding sort_permutation_def
    by (rule sorted_wrt_std_sort [OF permutation_less_linear [of UNIV]])
       (simp_all add: indices_def distinct_map inj_on_def)
  have lp: "length ?p = ?n" using p by (simp add: perm_on_def)
  from sp ab lp have less: "permutation_less c (?p ! a) (?p ! b)"
    by (simp add: sorted_wrt_iff_nth_less)
  have a: "a < ?n" using ab by simp
  have ia: "nat (?p ! a) < length (SegmentTypeHBtype c)" and ib: "nat (?p ! b) < length (SegmentTypeHBtype c)"
    using perm_fun_less [OF p a] perm_fun_less [OF p ab(2)]
    by (simp_all add: perm_fun_def size_segments_def)
  from eq have "SegmentTypeGroup c ! nat (?p ! a) = SegmentTypeGroup c ! nat (?p ! b)"
    "SegmentTypeHBtype c ! nat (?p ! a) = SegmentTypeHBtype c ! nat (?p ! b)"
    "SegmentTypeSigma c ! nat (?p ! a) = SegmentTypeSigma c ! nat (?p ! b)"
    "SegmentTypeSigmaCorr c ! nat (?p ! a) = SegmentTypeSigmaCorr c ! nat (?p ! b)"
    "SegmentTypeAtomicNumber c ! nat (?p ! a) = SegmentTypeAtomicNumber c ! nat (?p ! b)"
    by (simp_all add: nth_segment_keys [OF par ia] nth_segment_keys [OF par ib])
  with less show ?thesis by (simp add: permutation_less_def)
qed

lemma add_area_bounds:
  "add_area c index m a = Inr c' \<Longrightarrow>
   lowerBoundIndexForGroup c' = lowerBoundIndexForGroup c \<and>
   upperBoundIndexForGroup c' = upperBoundIndexForGroup c \<and>
   numberOfSegmentsForGroup c' = numberOfSegmentsForGroup c"
  by (auto simp add: add_area_def ebind_def split: sum.splits)

lemma add_bounds:
  assumes "add c m grp sigma sigmaCorr HBtype atomicNumber a = Inr c'"
  shows "lowerBoundIndexForGroup c' = lowerBoundIndexForGroup c \<and>
   upperBoundIndexForGroup c' = upperBoundIndexForGroup c \<and>
   numberOfSegmentsForGroup c' = numberOfSegmentsForGroup c"
proof (cases "a = 0")
  case True
  with assms show ?thesis by (simp add: add_def)
next
  case False
  obtain r where r: "add_search c grp sigma sigmaCorr HBtype atomicNumber
                 (indices (length (SegmentTypeHBtype c))) = r" by blast
  show ?thesis
  proof (cases r)
    case (Inl e)
    with assms False r show ?thesis by (simp add: add_def)
  next
    case (Inr index)
    show ?thesis
    proof (cases "index = - 1")
      case True
      with assms False r Inr
      have "add_area (add_append c grp sigma sigmaCorr HBtype atomicNumber)
              (int (length (SegmentTypeHBtype (add_append c grp sigma sigmaCorr HBtype atomicNumber))) - 1) m a = Inr c'"
        by (simp add: add_def Let_def)
      from add_area_bounds [OF this] show ?thesis by (simp add: add_append_def)
    next
      case neq: False
      with assms False r Inr have "add_area c index m a = Inr c'" by (simp add: add_def)
      from add_area_bounds [OF this] show ?thesis .
    qed
  qed
qed

lemma constructed_with_fresh:
  "constructed_with n c \<Longrightarrow>
   lowerBoundIndexForGroup c = replicate 7 0 \<and>
   upperBoundIndexForGroup c = replicate 7 0 \<and>
   numberOfSegmentsForGroup c = replicate 7 0"
proof (induction rule: constructed_with.induct)
  case (constructed n)
  show ?case by (simp add: segmentTypeCollection_n_def)
next
  case (added n c ind_molecule grp sigma sigmaCorr HBtype atomicNumber Area c')
  from add_bounds [OF added.hyps(2)] added.IH show ?case by simp
next
  case (cleared n c)
  then show ?case by (simp add: clear_def)
qed

lemma count_writes_nth:
  assumes "g < 7" "length counts = 7"
  shows "writes (count_writes L U [0..<7]) counts ! g = max (U ! g - L ! g) 0"
proof -
  let ?W = "count_writes L U [0..<7]"
  have "distinct (map fst (rev ?W))"
    by (simp add: count_writes_def rev_map [symmetric] distinct_rev comp_def del: upt_Suc)
  moreover have "(g, max (U ! g - L ! g) 0) \<in> set (rev ?W)"
    using assms(1) by (auto simp add: count_writes_def simp del: upt_Suc)
  ultimately have "map_of (rev ?W) g = Some (max (U ! g - L ! g) 0)" by (rule map_of_is_SomeI)
  then show ?thesis using assms by (simp add: writes_nth del: upt_Suc)
qed

lemma bounds_after_absent:
  assumes g: "g \<notin> set (SegmentTypeGroup c)" "g < 7"
    and n: "length (SegmentTypeGroup c) = size_segments c" "0 < size_segments c"
    and l: "length (numberOfSegmentsForGroup c) = 7"
  shows "lowerBoundIndexForGroup (bounds_after c) ! g = lowerBoundIndexForGroup c ! g"
    and "upperBoundIndexForGroup (bounds_after c) ! g = upperBoundIndexForGroup c ! g"
    and "numberOfSegmentsForGroup (bounds_after c) ! g =
           max (upperBoundIndexForGroup c ! g - lowerBoundIndexForGroup c ! g) 0"
proof -
  let ?gs = "SegmentTypeGroup c" and ?n = "size_segments c"
  have r: "\<forall>i\<in>set [0..<?n]. i < length ?gs" using n by simp
  have "fst ` set (lower_writes ?gs [0..<?n] (- 1)) \<subseteq> set ?gs"
    using r by (rule lower_writes_keys)
  with g(1) have gl: "g \<notin> fst ` set (lower_writes ?gs [0..<?n] (- 1))" by blast
  have "fst ` set (upper_writes ?gs [0..<?n] (- 1)) \<subseteq> set ?gs"
    using upper_writes_keys [OF r, of "- 1"] by simp
  moreover have "?gs ! (?n - 1) \<in> set ?gs" using n by simp
  ultimately have gu: "g \<notin> fst ` set (upper_writes ?gs [0..<?n] (- 1) @ [(?gs ! (?n - 1), int ?n)])"
    using g(1) by auto
  show L: "lowerBoundIndexForGroup (bounds_after c) ! g = lowerBoundIndexForGroup c ! g"
    using writes_untouched [OF gl] by (simp add: bounds_after_def Let_def)
  show U: "upperBoundIndexForGroup (bounds_after c) ! g = upperBoundIndexForGroup c ! g"
    using writes_untouched [OF gu] by (simp add: bounds_after_def Let_def del: writes_append)
  have "numberOfSegmentsForGroup (bounds_after c) ! g =
      max (upperBoundIndexForGroup (bounds_after c) ! g - lowerBoundIndexForGroup (bounds_after c) ! g) 0"
    using count_writes_nth [OF g(2) l] by (simp add: bounds_after_def Let_def del: writes_append upt_Suc)
  then show "numberOfSegmentsForGroup (bounds_after c) ! g =
           max (upperBoundIndexForGroup c ! g - lowerBoundIndexForGroup c ! g) 0"
    by (simp only: L U)
qed

text \<open>
  Claim C9 (fails on the code). On a collection without segment types the scan loop does
  not run, \<^verbatim>\<open>temporaryindex\<close> is still \<^verbatim>\<open>-1\<close>, and the write
  \<^verbatim>\<open>upperBoundIndexForGroup[temporaryindex] = i\<close> after the loop is outside the array:
  \<^verbatim>\<open>sort\<close> on a newly constructed collection ends in the out-of-bounds access.
\<close>

theorem sort_empty_collection_out_of_bounds:
  "sort_segments (segmentTypeCollection_n numberOfMolecules) = Some (Inl OutOfBounds)"
proof -
  let ?c = "segmentTypeCollection_n numberOfMolecules"
  have par: "parallel_vectors ?c" by (simp add: parallel_vectors_def segmentTypeCollection_n_def)
  have "size_segments ?c = 0" by (simp add: size_segments_def segmentTypeCollection_n_def)
  then have "sort_bounds (permuted ?c (std_sort (permutation_less ?c) (indices (size_segments ?c))))
      = Inl OutOfBounds"
    by (intro sort_bounds_empty) simp
  with sort_parallel [OF par] show ?thesis by simp
qed

lemma add_single: "add (segmentTypeCollection_n 1) 0 0 0 0 0 1 1 = Inr single_segment"
  by (simp add: add_def indices_def segmentTypeCollection_n_def add_append_def add_area_def
      single_segment_def Let_def)

lemma sort_single: "sort_segments single_segment = Some (Inr single_segment_sorted)"
proof -
  have ok: "sortable single_segment"
    by (simp add: sortable_def parallel_vectors_def single_segment_def segmentTypeCollection_n_def)
  have ne: "SegmentTypeGroup single_segment \<noteq> []" by (simp add: single_segment_def)
  have p: "sort_permutation single_segment = [0]"
    by (simp add: sort_permutation_def std_sort_def indices_def size_segments_def single_segment_def)
  have "bounds_after (permuted single_segment [0]) = single_segment_sorted"
    by code_simp
  with sort_sortable [OF ok ne] p show ?thesis by simp
qed

text \<open>
  Claim C6, as stated, fails: after one \<^verbatim>\<open>add\<close> of a segment type of group 0 and
  \<^verbatim>\<open>sort\<close>, group 1 has no member and no later group has one, so its bounds would have
  to be the collection size 1; both are 0.
\<close>

theorem sort_empty_group_bounds_counterexample:
  "constructed_with 1 single_segment \<and>
   sort_segments single_segment = Some (Inr single_segment_sorted) \<and>
   1 \<notin> set (SegmentTypeGroup single_segment_sorted) \<and>
   lowerBoundIndexForGroup single_segment_sorted ! 1 = 0 \<and>
   upperBoundIndexForGroup single_segment_sorted ! 1 = 0 \<and>
   claimed_empty_group_bound single_segment_sorted 1 = 1"
proof -
  have "constructed_with 1 single_segment"
    using constructed [of 1] add_single by (rule added)
  moreover have "claimed_empty_group_bound single_segment_sorted 1 = 1"
    by (simp add: claimed_empty_group_bound_def single_segment_sorted_def single_segment_def
        size_segments_def)
  ultimately show ?thesis
    using sort_single
    by (simp add: single_segment_sorted_def single_segment_def segmentTypeCollection_n_def)
qed

text \<open>
  Claim C6, amended. For a collection built from \<^verbatim>\<open>segmentTypeCollection(n)\<close> by \<^verbatim>\<open>add\<close>
  (never sorted before), not empty, with all groups in \<open>[0, 6]\<close>, \<^verbatim>\<open>sort\<close> returns, keeps
  the set of groups, and every group without members has count 0 and lower and upper
  bound 0, the value the arrays were initialised with: \<^verbatim>\<open>sort\<close> writes bounds only for
  groups that occur.
\<close>

theorem sort_empty_group_bounds_zero:
  assumes "constructed_with n c" and "SegmentTypeGroup c \<noteq> []"
    and "list_all (\<lambda>g. g \<le> 6) (SegmentTypeGroup c)"
  shows "\<exists>c'. sort_segments c = Some (Inr c') \<and> set (SegmentTypeGroup c') = set (SegmentTypeGroup c) \<and>
           (\<forall>g<7. g \<notin> set (SegmentTypeGroup c') \<longrightarrow>
              numberOfSegmentsForGroup c' ! g = 0 \<and>
              lowerBoundIndexForGroup c' ! g = 0 \<and> upperBoundIndexForGroup c' ! g = 0)"
proof -
  let ?p = "sort_permutation c"
  let ?d = "permuted c ?p"
  from assms(1) have "registry_inv (nat n) c" by (rule constructed_with_inv)
  then have par: "parallel_vectors c" by (simp add: registry_inv_def)
  from assms(1) have fresh: "lowerBoundIndexForGroup c = replicate 7 0"
    "upperBoundIndexForGroup c = replicate 7 0" "numberOfSegmentsForGroup c = replicate 7 0"
    using constructed_with_fresh by blast+
  have ok: "sortable c" using par fresh assms(3) by (simp add: sortable_def)
  have s: "sort_segments c = Some (Inr (bounds_after ?d))" using ok assms(2) by (rule sort_sortable)
  have n: "length (SegmentTypeGroup c) = size_segments c"
    using par by (simp add: parallel_vectors_def size_segments_def)
  have p: "perm_on ?p (size_segments c)" unfolding sort_permutation_def by (rule perm_on_std_sort)
  have gs: "SegmentTypeGroup (bounds_after ?d) = SegmentTypeGroup ?d"
    by (simp add: bounds_after_def Let_def)
  have set: "set (SegmentTypeGroup ?d) = set (SegmentTypeGroup c)"
    using set_gather [of ?p "SegmentTypeGroup c"] p n by (simp add: permuted_def)
  have pos: "0 < length (SegmentTypeGroup c)" using assms(2) by simp
  have nd: "length (SegmentTypeGroup ?d) = size_segments ?d" "0 < size_segments ?d"
    using n pos by (simp_all add: permuted_def size_segments_def)
  have ld: "length (numberOfSegmentsForGroup ?d) = 7" using fresh by (simp add: permuted_def)
  have fd: "lowerBoundIndexForGroup ?d = replicate 7 0" "upperBoundIndexForGroup ?d = replicate 7 0"
    using fresh by (simp_all add: permuted_def)
  have "\<forall>g<7. g \<notin> set (SegmentTypeGroup (bounds_after ?d)) \<longrightarrow>
              numberOfSegmentsForGroup (bounds_after ?d) ! g = 0 \<and>
              lowerBoundIndexForGroup (bounds_after ?d) ! g = 0 \<and>
              upperBoundIndexForGroup (bounds_after ?d) ! g = 0"
  proof (intro allI impI)
    fix g :: nat assume g: "g < 7" "g \<notin> set (SegmentTypeGroup (bounds_after ?d))"
    from g(2) have g': "g \<notin> set (SegmentTypeGroup ?d)" unfolding gs .
    have z: "replicate 7 (0::int) ! g = 0" using g(1) by simp
    have L: "lowerBoundIndexForGroup (bounds_after ?d) ! g = 0"
      using bounds_after_absent(1) [OF g' g(1) nd ld] by (simp only: fd z)
    have U: "upperBoundIndexForGroup (bounds_after ?d) ! g = 0"
      using bounds_after_absent(2) [OF g' g(1) nd ld] by (simp only: fd z)
    have N: "numberOfSegmentsForGroup (bounds_after ?d) ! g = max (0 - 0) 0"
      using bounds_after_absent(3) [OF g' g(1) nd ld] by (simp only: fd z)
    from L U N
    show "numberOfSegmentsForGroup (bounds_after ?d) ! g = 0 \<and>
              lowerBoundIndexForGroup (bounds_after ?d) ! g = 0 \<and>
              upperBoundIndexForGroup (bounds_after ?d) ! g = 0"
      by simp
  qed
  with s gs set show ?thesis by simp
qed

theorem sort_empty_group_bounds_witness:
  "constructed_with 1 single_segment \<and> SegmentTypeGroup single_segment \<noteq> [] \<and>
   list_all (\<lambda>g. g \<le> 6) (SegmentTypeGroup single_segment) \<and>
   sort_segments single_segment = Some (Inr single_segment_sorted) \<and>
   numberOfSegmentsForGroup single_segment_sorted ! 2 = 0 \<and>
   lowerBoundIndexForGroup single_segment_sorted ! 2 = 0 \<and>
   upperBoundIndexForGroup single_segment_sorted ! 2 = 0"
proof -
  have h1: "constructed_with 1 single_segment"
    using constructed [of 1] add_single by (rule added)
  have h2: "SegmentTypeGroup single_segment \<noteq> []" by (simp add: single_segment_def)
  have h3: "list_all (\<lambda>g. g \<le> 6) (SegmentTypeGroup single_segment)" by (simp add: single_segment_def)
  from sort_empty_group_bounds_zero [OF h1 h2 h3] sort_single
  have "\<forall>g<7. g \<notin> set (SegmentTypeGroup single_segment_sorted) \<longrightarrow>
              numberOfSegmentsForGroup single_segment_sorted ! g = 0 \<and>
              lowerBoundIndexForGroup single_segment_sorted ! g = 0 \<and>
              upperBoundIndexForGroup single_segment_sorted ! g = 0" by simp
  moreover have "2 \<notin> set (SegmentTypeGroup single_segment_sorted)"
    by (simp add: single_segment_sorted_def single_segment_def)
  ultimately have "numberOfSegmentsForGroup single_segment_sorted ! 2 = 0 \<and>
              lowerBoundIndexForGroup single_segment_sorted ! 2 = 0 \<and>
              upperBoundIndexForGroup single_segment_sorted ! 2 = 0" by simp
  with h1 h2 h3 sort_single show ?thesis by simp
qed

text \<open>
  Claim C7. For a collection with parallel vectors, seven-element bound arrays, groups
  in \<open>[0, 6]\<close> and at least one segment type, \<^verbatim>\<open>sort\<close> returns; every attribute array of
  the result is the original one gathered through the permutation vector \<open>p\<close>; segment
  types whose keys (group, hbType, sigma, sigmaCorr, atomicNumber) are all equal keep
  their original relative order (\<open>p\<close> is increasing on them); and \<^verbatim>\<open>sort\<close> on the result
  returns the result unchanged, attribute arrays, bounds and counts alike.
\<close>

theorem sort_stable_and_idempotent:
  assumes "sortable c" and "SegmentTypeGroup c \<noteq> []"
  shows "\<exists>p c'. get_permutation_vector c = Inr p \<and> perm_on p (size_segments c) \<and>
           sort_segments c = Some (Inr c') \<and>
           SegmentTypeGroup c' = gather (SegmentTypeGroup c) p \<and>
           SegmentTypeSigma c' = gather (SegmentTypeSigma c) p \<and>
           SegmentTypeSigmaCorr c' = gather (SegmentTypeSigmaCorr c) p \<and>
           SegmentTypeHBtype c' = gather (SegmentTypeHBtype c) p \<and>
           SegmentTypeAtomicNumber c' = gather (SegmentTypeAtomicNumber c) p \<and>
           SegmentTypeAreas c' = gather (SegmentTypeAreas c) p \<and>
           (\<forall>a b. a < b \<and> b < size_segments c \<and>
                  segment_keys c ! nat (p ! a) = segment_keys c ! nat (p ! b) \<longrightarrow> p ! a < p ! b) \<and>
           sort_segments c' = Some (Inr c')"
proof -
  let ?p = "sort_permutation c"
  let ?c' = "bounds_after (permuted c ?p)"
  have par: "parallel_vectors c" using assms(1) by (simp add: sortable_def)
  have 1: "get_permutation_vector c = Inr ?p"
    using get_permutation_vector_parallel [OF par] by (simp add: sort_permutation_def)
  have 2: "perm_on ?p (size_segments c)" unfolding sort_permutation_def by (rule perm_on_std_sort)
  have 3: "sort_segments c = Some (Inr ?c')" using assms by (rule sort_sortable)
  have 4: "SegmentTypeGroup ?c' = gather (SegmentTypeGroup c) ?p"
    "SegmentTypeSigma ?c' = gather (SegmentTypeSigma c) ?p"
    "SegmentTypeSigmaCorr ?c' = gather (SegmentTypeSigmaCorr c) ?p"
    "SegmentTypeHBtype ?c' = gather (SegmentTypeHBtype c) ?p"
    "SegmentTypeAtomicNumber ?c' = gather (SegmentTypeAtomicNumber c) ?p"
    "SegmentTypeAreas ?c' = gather (SegmentTypeAreas c) ?p"
    by (simp_all add: bounds_after_def Let_def permuted_def)
  have 5: "\<forall>a b. a < b \<and> b < size_segments c \<and>
                  segment_keys c ! nat (?p ! a) = segment_keys c ! nat (?p ! b) \<longrightarrow> ?p ! a < ?p ! b"
    using sort_stable [OF par] by blast
  have 6: "sort_segments ?c' = Some (Inr ?c')" using assms by (rule sort_idempotent)
  from 1 2 3 4 5 6 show ?thesis by blast
qed

lemma sort_three_segments: "sort_segments three_segments = Some (Inr three_segments_sorted)"
  by code_simp

lemma permutation_three_segments: "get_permutation_vector three_segments = Inr [1, 0, 2]"
  by code_simp

theorem sort_stable_and_idempotent_witness:
  "sortable three_segments \<and> SegmentTypeGroup three_segments \<noteq> [] \<and>
   get_permutation_vector three_segments = Inr [1, 0, 2] \<and>
   sort_segments three_segments = Some (Inr three_segments_sorted) \<and>
   SegmentTypeAreas three_segments_sorted = gather (SegmentTypeAreas three_segments) [1, 0, 2] \<and>
   segment_keys three_segments ! 0 = segment_keys three_segments ! 2 \<and>
   sort_segments three_segments_sorted = Some (Inr three_segments_sorted)"
proof -
  have h1: "sortable three_segments"
    by (simp add: sortable_def parallel_vectors_def three_segments_def segmentTypeCollection_n_def)
  have h2: "SegmentTypeGroup three_segments \<noteq> []" by (simp add: three_segments_def)
  have k: "segment_keys three_segments ! 0 = segment_keys three_segments ! 2"
    by (simp add: segment_keys_def three_segments_def)
  from sort_stable_and_idempotent [OF h1 h2] obtain p c' where
    r: "get_permutation_vector three_segments = Inr p" "sort_segments three_segments = Some (Inr c')"
       "SegmentTypeAreas c' = gather (SegmentTypeAreas three_segments) p"
       "sort_segments c' = Some (Inr c')"
    by blast
  from r(1) permutation_three_segments have p: "p = [1, 0, 2]" by simp
  from r(2) sort_three_segments have c': "c' = three_segments_sorted" by simp
  from h1 h2 k r p c' show ?thesis by simp
qed

section \<open>The term-evaluation pass\<close>

lemma block_pairs_Cons:
  "block_pairs (i # rest) ub = ({i} \<times> set [i..ub - 1]) \<union> block_pairs rest ub"
  by (auto simp add: block_pairs_def)

lemma pass_post_error:
  assumes "(i, j) \<in> R" "V i j = Inl e"
  shows "pass_post R V A (A, Some e)"
  using assms by (auto simp add: pass_post_def)

lemma pass_post_stop:
  assumes inner: "pass_post R1 V A (A1, Some e)" and disj: "R1 \<inter> R2 = {}"
  shows "pass_post (R1 \<union> R2) V A (A1, Some e)"
proof -
  have 2: "\<forall>r c. (c, r) \<notin> R1 \<union> R2 \<longrightarrow> A1 (r, c) = A (r, c)"
    using inner by (simp add: pass_post_def)
  have 3: "\<forall>i j. (i, j) \<in> R1 \<union> R2 \<longrightarrow> A1 (j, i) = A (j, i) \<or> V i j = Inr (A1 (j, i))"
  proof (intro allI impI)
    fix i j assume "(i, j) \<in> R1 \<union> R2"
    then show "A1 (j, i) = A (j, i) \<or> V i j = Inr (A1 (j, i))"
      using inner by (cases "(i, j) \<in> R1") (simp_all add: pass_post_def)
  qed
  have 4: "\<exists>i j. (i, j) \<in> R1 \<union> R2 \<and> V i j = Inl e"
    using inner by (auto simp add: pass_post_def)
  from 2 3 4 show ?thesis by (simp add: pass_post_def)
qed

lemma pass_post_seq:
  assumes first: "pass_post R1 V A (A1, None)" and rest: "pass_post R2 V A1 res"
    and disj: "R1 \<inter> R2 = {}"
  shows "pass_post (R1 \<union> R2) V A res"
proof -
  have f1: "\<And>i j. (i, j) \<in> R1 \<Longrightarrow> V i j = Inr (A1 (j, i))"
    using first by (simp add: pass_post_def)
  have f2: "\<And>r c. (c, r) \<notin> R1 \<Longrightarrow> A1 (r, c) = A (r, c)"
    using first by (simp add: pass_post_def)
  have r1: "\<And>i j. snd res = None \<Longrightarrow> (i, j) \<in> R2 \<Longrightarrow> V i j = Inr (fst res (j, i))"
    using rest by (simp add: pass_post_def)
  have r2: "\<And>r c. (c, r) \<notin> R2 \<Longrightarrow> fst res (r, c) = A1 (r, c)"
    using rest by (simp add: pass_post_def)
  have r3: "\<And>i j. (i, j) \<in> R2 \<Longrightarrow> fst res (j, i) = A1 (j, i) \<or> V i j = Inr (fst res (j, i))"
    using rest by (simp add: pass_post_def)
  have r4: "\<And>e. snd res = Some e \<Longrightarrow> \<exists>i j. (i, j) \<in> R2 \<and> V i j = Inl e"
    using rest by (simp add: pass_post_def)
  have in1: "\<And>i j. (i, j) \<in> R1 \<Longrightarrow> fst res (j, i) = A1 (j, i)"
    using disj r2 by blast
  have 1: "snd res = None \<longrightarrow> (\<forall>i j. (i, j) \<in> R1 \<union> R2 \<longrightarrow> V i j = Inr (fst res (j, i)))"
    using f1 in1 r1 by auto
  have 2: "\<forall>r c. (c, r) \<notin> R1 \<union> R2 \<longrightarrow> fst res (r, c) = A (r, c)"
    using f2 r2 by simp
  have 3: "\<forall>i j. (i, j) \<in> R1 \<union> R2 \<longrightarrow> fst res (j, i) = A (j, i) \<or> V i j = Inr (fst res (j, i))"
  proof (intro allI impI)
    fix i j assume ij: "(i, j) \<in> R1 \<union> R2"
    show "fst res (j, i) = A (j, i) \<or> V i j = Inr (fst res (j, i))"
    proof (cases "(i, j) \<in> R1")
      case True
      with f1 in1 show ?thesis by simp
    next
      case False
      with ij have "(i, j) \<in> R2" by simp
      with r3 have "fst res (j, i) = A1 (j, i) \<or> V i j = Inr (fst res (j, i))" by blast
      with f2 False show ?thesis by auto
    qed
  qed
  have 4: "\<forall>e. snd res = Some e \<longrightarrow> (\<exists>i j. (i, j) \<in> R1 \<union> R2 \<and> V i j = Inl e)"
    using r4 by blast
  from 1 2 3 4 show ?thesis by (simp add: pass_post_def)
qed

lemma pass_post_cong:
  assumes "pass_post R V A res" "\<And>i j. (i, j) \<in> R \<Longrightarrow> V i j = V' i j"
  shows "pass_post R V' A res"
proof -
  have eq: "\<And>i j. (i, j) \<in> R \<Longrightarrow> V' i j = V i j" using assms(2) by simp
  have 1: "snd res = None \<longrightarrow> (\<forall>i j. (i, j) \<in> R \<longrightarrow> V' i j = Inr (fst res (j, i)))"
    using assms(1) eq by (simp add: pass_post_def)
  have 2: "\<forall>r c. (c, r) \<notin> R \<longrightarrow> fst res (r, c) = A (r, c)"
    using assms(1) by (simp add: pass_post_def)
  have 3: "\<forall>i j. (i, j) \<in> R \<longrightarrow> fst res (j, i) = A (j, i) \<or> V' i j = Inr (fst res (j, i))"
    using assms(1) eq by (simp add: pass_post_def)
  have 4: "\<forall>e. snd res = Some e \<longrightarrow> (\<exists>i j. (i, j) \<in> R \<and> V' i j = Inl e)"
  proof (intro allI impI)
    fix e assume "snd res = Some e"
    with assms(1) obtain i j where "(i, j) \<in> R" "V i j = Inl e" by (auto simp add: pass_post_def)
    moreover from this eq have "V' i j = Inl e" by simp
    ultimately show "\<exists>i j. (i, j) \<in> R \<and> V' i j = Inl e" by blast
  qed
  from 1 2 3 4 show ?thesis by (simp add: pass_post_def)
qed

lemma pass_post_write:
  assumes "V i j = Inr v"
  shows "pass_post {(i, j)} V A (A((j, i) := v), None)"
  using assms by (simp add: pass_post_def)

lemma neutral_inner_post:
  "distinct js \<Longrightarrow> pass_post ({i} \<times> set js) (\<lambda>i' j. val_of j) A (neutral_inner val_of i js A)"
proof (induction js arbitrary: A)
  case Nil
  then show ?case by (simp add: pass_post_def)
next
  case (Cons j js)
  have split: "{i} \<times> set (j # js) = {(i, j)} \<union> {i} \<times> set js" by auto
  show ?case
  proof (cases "val_of j")
    case (Inl e)
    have "pass_post ({i} \<times> set (j # js)) (\<lambda>i' j. val_of j) A (A, Some e)"
      by (rule pass_post_error [of i j]) (simp_all add: Inl)
    with Inl show ?thesis by simp
  next
    case (Inr v)
    let ?A1 = "A((j, i) := v)"
    have first: "pass_post {(i, j)} (\<lambda>i' j. val_of j) A (?A1, None)"
      by (rule pass_post_write) (simp add: Inr)
    have rest: "pass_post ({i} \<times> set js) (\<lambda>i' j. val_of j) ?A1 (neutral_inner val_of i js ?A1)"
      using Cons by simp
    have disj: "{(i, j)} \<inter> {i} \<times> set js = {}" using Cons.prems by simp
    from pass_post_seq [OF first rest disj] Inr show ?thesis by (simp only: split neutral_inner.simps sum.case)
  qed
qed

lemma neutral_outer_post:
  "distinct is \<Longrightarrow> \<forall>i\<in>set is. i < ub \<Longrightarrow>
   pass_post (block_pairs is ub) (pair_energy param temperature segments) A
     (neutral_outer param temperature segments ub is A)"
proof (induction "is" arbitrary: A)
  case Nil
  then show ?case by (simp add: pass_post_def block_pairs_def)
next
  case (Cons i rest)
  let ?V = "pair_energy param temperature segments"
  let ?R1 = "{i} \<times> set [i..ub - 1]"
  let ?R2 = "block_pairs rest ub"
  have iub: "i < ub" using Cons.prems(2) by simp
  have disj: "?R1 \<inter> ?R2 = {}" using Cons.prems(1) by (auto simp add: block_pairs_def)
  have ii: "(i, i) \<in> ?R1 \<union> ?R2" using iub by simp
  show ?case
  proof (cases "outer_reads param segments i")
    case (Inl e)
    then have "?V i i = Inl e" by (simp add: pair_energy_def)
    with ii have "pass_post (?R1 \<union> ?R2) ?V A (A, Some e)" by (rule pass_post_error)
    with Inl show ?thesis by (simp add: block_pairs_Cons)
  next
    case (Inr st)
    obtain sigmai sigmaTransi where st: "st = (sigmai, sigmaTransi)" by (cases st)
    let ?val = "pair_val param temperature segments sigmai sigmaTransi i"
    obtain A1 e1 where inner: "neutral_inner ?val i [i..ub - 1] A = (A1, e1)" by (cases "neutral_inner ?val i [i..ub - 1] A")
    have "pass_post ?R1 (\<lambda>i' j. ?val j) A (neutral_inner ?val i [i..ub - 1] A)"
      by (rule neutral_inner_post) simp
    then have p1: "pass_post ?R1 ?V A (A1, e1)"
      unfolding inner by (rule pass_post_cong) (auto simp add: pair_energy_def Inr st)
    show ?thesis
    proof (cases e1)
      case None
      have rest: "pass_post ?R2 ?V A1 (neutral_outer param temperature segments ub rest A1)"
        using Cons.prems by (intro Cons.IH) simp_all
      have "pass_post (?R1 \<union> ?R2) ?V A (neutral_outer param temperature segments ub rest A1)"
        using p1 [unfolded None] rest disj by (rule pass_post_seq)
      then show ?thesis using Inr st inner None by (simp add: block_pairs_Cons)
    next
      case (Some e)
      have "pass_post (?R1 \<union> ?R2) ?V A (A1, Some e)"
        using p1 [unfolded Some] disj by (rule pass_post_stop)
      then show ?thesis using Inr st inner Some by (simp add: block_pairs_Cons)
    qed
  qed
qed

lemma CHB_T_closed: "CHB_T param temperature = CHB_T_closed param temperature"
  by (simp add: CHB_T_def CHB_T_closed_def Let_def max_def)

lemma hb_types_are_value:
  assumes "parallel_vectors segments" "segment_index segments i" "segment_index segments j"
  shows "hb_types_are segments i j a b =
           Inr (hbType_at segments i = a \<and> hbType_at segments j = b)"
  using assms
  by (simp add: hb_types_are_def hbType_at_def segment_index_def size_segments_def)

lemma outer_reads_value:
  assumes "parallel_vectors segments" "segment_index segments i"
  shows "outer_reads param segments i =
           Inr (sigma_at segments i, if sw_misfit param > 0 then sigmaTrans_at segments i else 0)"
  using assms
  by (simp add: outer_reads_def sigma_at_def sigmaTrans_at_def segment_index_def
      size_segments_def parallel_vectors_def)

lemma misfit_val_value:
  assumes par: "parallel_vectors segments" and j: "segment_index segments j"
  shows "misfit_val param segments (sigma_at segments i)
           (if sw_misfit param > 0 then sigmaTrans_at segments i else 0) j (sigma_at segments j)
         = Inr (misfit_term param segments i j)"
proof (cases "sw_misfit param > 0")
  case True
  have cj: "vget (SegmentTypeSigmaCorr segments) j = Inr (SegmentTypeSigmaCorr segments ! nat j)"
    using par j by (simp add: segment_index_def size_segments_def parallel_vectors_def)
  show ?thesis
    using True
    by (simp add: misfit_val_def cj misfit_term_def misfit_base_def misfit_correction_def
        misfit_prefactor_def sigmaTrans_at_def sigma_at_def Let_def power2_eq_square algebra_simps)
next
  case False
  then show ?thesis
    by (simp add: misfit_val_def misfit_term_def misfit_base_def misfit_prefactor_def
        Let_def power2_eq_square algebra_simps)
qed

lemma pair_energy_value:
  assumes par: "parallel_vectors segments"
    and i: "segment_index segments i" and j: "segment_index segments j"
  shows "pair_energy param temperature segments i j =
     (if hb_sign param segments i j then
        (if hbType_at segments i = 1 \<and> hbType_at segments j = 2
         then Inr (misfit_term param segments i j + hb_term param temperature segments i j)
         else if hbType_at segments i = 2 \<and> hbType_at segments j = 1
         then Inl (RuntimeError
                ''This should not happen. Wrong assumption calculating interaction matrix. 1'')
         else Inr (misfit_term param segments i j))
      else if hb_sign param segments j i then
        (if hbType_at segments i = 2 \<and> hbType_at segments j = 1
         then Inr (misfit_term param segments i j + hb_term param temperature segments j i)
         else if hbType_at segments i = 1 \<and> hbType_at segments j = 2
         then Inl (RuntimeError
                ''This should not happen. Wrong assumption calculating interaction matrix. 2'')
         else Inr (misfit_term param segments i j))
      else Inr (misfit_term param segments i j))"
proof -
  have sj: "vget (SegmentTypeSigma segments) j = Inr (sigma_at segments j)"
    using par j by (simp add: sigma_at_def segment_index_def size_segments_def parallel_vectors_def)
  have hb: "hb_prefactor param temperature = Aeff param * CHB_T_closed param temperature"
    by (simp add: hb_prefactor_def CHB_T_closed)
  show ?thesis
    unfolding pair_energy_def outer_reads_value [OF par i] prod.case ebind_Inr
      pair_val_def Let_def sj misfit_val_value [OF par j]
    by (simp add: hb_types_are_value [OF par i j] hb hb_sign_def hb_term_def)
qed

lemma neutral_pair_block:
  "(i, j) \<in> block_pairs [lowerBoundIndexForGroup segments ! 0 ..
        UpperBoundIndexForNeutralComponents segments - 1]
      (UpperBoundIndexForNeutralComponents segments) \<longleftrightarrow> neutral_pair segments i j"
  by (auto simp add: block_pairs_def neutral_pair_def)

lemma neutral_block_post:
  "pass_post {(i, j). neutral_pair segments i j} (pair_energy param temperature segments) A
     (neutral_block param temperature segments A)"
proof -
  let ?lb = "lowerBoundIndexForGroup segments ! 0"
  let ?ub = "UpperBoundIndexForNeutralComponents segments"
  have "pass_post (block_pairs [?lb..?ub - 1] ?ub) (pair_energy param temperature segments) A
     (neutral_outer param temperature segments ?ub [?lb..?ub - 1] A)"
    by (rule neutral_outer_post) simp_all
  moreover have "block_pairs [?lb..?ub - 1] ?ub = {(i, j). neutral_pair segments i j}"
    using neutral_pair_block [of _ _ segments] by auto
  ultimately show ?thesis by (simp add: neutral_block_def)
qed

lemma neutral_pair_index:
  assumes "neutral_block_ok segments" "neutral_pair segments i j"
  shows "segment_index segments i" "segment_index segments j"
  using assms by (simp_all add: neutral_block_ok_def neutral_pair_def segment_index_def)

lemma neutral_block_written:
  assumes "neutral_block param temperature segments A = (A', None)" "neutral_pair segments i j"
  shows "pair_energy param temperature segments i j = Inr (A' (j, i))"
  using neutral_block_post [of segments param temperature A] assms by (simp add: pass_post_def)

lemma neutral_block_outside:
  assumes "neutral_block param temperature segments A = (A', err)" "\<not> neutral_pair segments c r"
  shows "A' (r, c) = A (r, c)"
  using neutral_block_post [of segments param temperature A] assms by (simp add: pass_post_def)

lemma neutral_block_cell:
  assumes "neutral_block param temperature segments A = (A', err)" "neutral_pair segments i j"
  shows "A' (j, i) = A (j, i) \<or> pair_energy param temperature segments i j = Inr (A' (j, i))"
  using neutral_block_post [of segments param temperature A] assms by (simp add: pass_post_def)

lemma neutral_block_error:
  assumes "neutral_block param temperature segments A = (A', Some e)"
  shows "\<exists>i j. neutral_pair segments i j \<and> pair_energy param temperature segments i j = Inl e"
  using neutral_block_post [of segments param temperature A] assms by (simp add: pass_post_def)

subsection \<open>The order of the visits\<close>

text \<open>
  The pass is the loop over the list of its pairs, which is strictly ascending in the
  lexicographic order. Hence the entries written are those of the pairs before the
  first one that throws, and the error of the pass is the error of that pair.
\<close>

lemma hb_sign_exclusive:
  "0 \<le> SigmaHB param \<Longrightarrow> hb_sign param segments i j \<Longrightarrow> \<not> hb_sign param segments j i"
  by (auto simp add: hb_sign_def)

lemma neutral_inner_run:
  "neutral_inner val_of i js A = run_pairs (\<lambda>i' j. val_of j) (map (Pair i) js) A"
  by (induction js arbitrary: A) (simp_all split: sum.splits)

lemma run_pairs_append:
  "run_pairs V (ps @ qs) A =
     (case run_pairs V ps A of (A1, Some e) \<Rightarrow> (A1, Some e) | (A1, None) \<Rightarrow> run_pairs V qs A1)"
  by (induction ps arbitrary: A) (simp_all split: sum.splits)

lemma run_pairs_cong:
  "(\<And>i j. (i, j) \<in> set ps \<Longrightarrow> V i j = V' i j) \<Longrightarrow> run_pairs V ps A = run_pairs V' ps A"
proof (induction ps arbitrary: A)
  case (Cons p ps)
  have "V (fst p) (snd p) = V' (fst p) (snd p)" using Cons.prems [of "fst p" "snd p"] by simp
  moreover have "run_pairs V ps B = run_pairs V' ps B" for B
    using Cons.prems by (intro Cons.IH) simp
  ultimately show ?case by (simp split: sum.splits)
qed simp

lemma neutral_outer_run:
  "\<forall>i\<in>set is. i < ub \<Longrightarrow>
   neutral_outer param temperature segments ub is A =
     run_pairs (pair_energy param temperature segments) (block_list is ub) A"
proof (induction "is" arbitrary: A)
  case Nil
  then show ?case by (simp add: block_list_def)
next
  case (Cons i rest)
  let ?V = "pair_energy param temperature segments"
  have iub: "i < ub" using Cons.prems by simp
  have row: "[i..ub - 1] = i # [i + 1..ub - 1]" using iub by (simp add: upto_rec1)
  have bl: "block_list (i # rest) ub = map (Pair i) [i..ub - 1] @ block_list rest ub"
    by (simp add: block_list_def)
  have IH: "neutral_outer param temperature segments ub rest B = run_pairs ?V (block_list rest ub) B" for B
    using Cons.prems by (intro Cons.IH) simp
  show ?case
  proof (cases "outer_reads param segments i")
    case (Inl e)
    then have "?V i i = Inl e" by (simp add: pair_energy_def)
    then have "run_pairs ?V (block_list (i # rest) ub) A = (A, Some e)"
      unfolding bl row by simp
    with Inl show ?thesis by simp
  next
    case (Inr st)
    obtain sigmai sigmaTransi where st: "st = (sigmai, sigmaTransi)" by (cases st)
    let ?val = "pair_val param temperature segments sigmai sigmaTransi i"
    have "neutral_inner ?val i [i..ub - 1] A = run_pairs (\<lambda>i' j. ?val j) (map (Pair i) [i..ub - 1]) A"
      by (rule neutral_inner_run)
    also have "\<dots> = run_pairs ?V (map (Pair i) [i..ub - 1]) A"
      by (rule run_pairs_cong) (auto simp add: pair_energy_def Inr st)
    finally have inner: "neutral_inner ?val i [i..ub - 1] A = run_pairs ?V (map (Pair i) [i..ub - 1]) A" .
    show ?thesis
      unfolding bl run_pairs_append
      using Inr st inner IH by (simp split: prod.splits option.splits)
  qed
qed

lemma run_pairs_untouched:
  "(i, j) \<notin> set (takeWhile (returns V) ps) \<Longrightarrow> fst (run_pairs V ps A) (j, i) = A (j, i)"
proof (induction ps arbitrary: A)
  case (Cons p ps)
  show ?case
  proof (cases "V (fst p) (snd p)")
    case (Inl e)
    then show ?thesis by simp
  next
    case (Inr v)
    then have r: "returns V p" by (simp add: returns_def)
    with Cons.prems have ne: "(i, j) \<noteq> p" and rest: "(i, j) \<notin> set (takeWhile (returns V) ps)"
      by auto
    from ne have ne': "(j, i) \<noteq> (snd p, fst p)" by auto
    have "fst (run_pairs V ps (A((snd p, fst p) := v))) (j, i) = (A((snd p, fst p) := v)) (j, i)"
      using rest by (rule Cons.IH)
    also have "\<dots> = A (j, i)" using ne' by auto
    finally show ?thesis using Inr by simp
  qed
qed simp

lemma run_pairs_written:
  "(i, j) \<in> set (takeWhile (returns V) ps) \<Longrightarrow> distinct ps \<Longrightarrow>
   V i j = Inr (fst (run_pairs V ps A) (j, i))"
proof (induction ps arbitrary: A)
  case (Cons p ps)
  from Cons.prems(1) have r: "returns V p" by (auto split: if_splits)
  then obtain v where v: "V (fst p) (snd p) = Inr v" by (auto simp add: returns_def)
  show ?case
  proof (cases "(i, j) = p")
    case True
    with Cons.prems(2) have "(i, j) \<notin> set ps" by auto
    then have "(i, j) \<notin> set (takeWhile (returns V) ps)" by (auto dest: set_takeWhileD)
    then have "fst (run_pairs V ps (A((snd p, fst p) := v))) (j, i) = (A((snd p, fst p) := v)) (j, i)"
      by (rule run_pairs_untouched)
    also have "\<dots> = v" using True by auto
    finally have "fst (run_pairs V (p # ps) A) (j, i) = v" using v by simp
    moreover have "V i j = Inr v" using True v by auto
    ultimately show ?thesis by simp
  next
    case False
    with Cons.prems(1) r have in_rest: "(i, j) \<in> set (takeWhile (returns V) ps)" by simp
    have d: "distinct ps" using Cons.prems(2) by simp
    have "V i j = Inr (fst (run_pairs V ps (A((snd p, fst p) := v))) (j, i))"
      using in_rest d by (rule Cons.IH)
    then show ?thesis using v by simp
  qed
qed simp

lemma run_pairs_completes:
  "snd (run_pairs V ps A) = None \<longleftrightarrow> (\<forall>p\<in>set ps. returns V p)"
  by (induction ps arbitrary: A) (auto simp add: returns_def split: sum.splits)

lemma run_pairs_error:
  "snd (run_pairs V ps A) = Some e \<Longrightarrow> \<exists>p\<in>set ps. V (fst p) (snd p) = Inl e"
  by (induction ps arbitrary: A) (auto split: sum.splits)

lemma run_pairs_first_error:
  "sorted_wrt (<) ps \<Longrightarrow> p \<in> set ps \<Longrightarrow> V (fst p) (snd p) = Inl e \<Longrightarrow>
   \<forall>y\<in>set ps. y < p \<longrightarrow> returns V y \<Longrightarrow> snd (run_pairs V ps A) = Some e"
  for ps :: "(int \<times> int) list"
proof (induction ps arbitrary: A)
  case (Cons q ps)
  show ?case
  proof (cases "p = q")
    case True
    with Cons.prems(3) show ?thesis by simp
  next
    case False
    with Cons.prems(2) have pin: "p \<in> set ps" by simp
    with Cons.prems(1) have "q < p" by simp
    with Cons.prems(4) have "returns V q" by simp
    then obtain v where v: "V (fst q) (snd q) = Inr v" by (auto simp add: returns_def)
    have s: "sorted_wrt (<) ps" using Cons.prems(1) by simp
    have b: "\<forall>y\<in>set ps. y < p \<longrightarrow> returns V y" using Cons.prems(4) by simp
    have "snd (run_pairs V ps (A((snd q, fst q) := v))) = Some e"
      using s pin Cons.prems(3) b by (rule Cons.IH)
    then show ?thesis using v by simp
  qed
qed simp

lemma takeWhile_sorted:
  "sorted_wrt (<) ps \<Longrightarrow>
   x \<in> set (takeWhile P ps) \<longleftrightarrow> x \<in> set ps \<and> (\<forall>y\<in>set ps. y \<le> x \<longrightarrow> P y)"
  for ps :: "('a :: linorder) list"
proof (induction ps)
  case (Cons p ps)
  then have lt: "\<forall>y\<in>set ps. p < y" and s: "sorted_wrt (<) ps" by simp_all
  show ?case
  proof (cases "P p")
    case True
    show ?thesis using True lt Cons.IH [OF s] by auto
  next
    case False
    show ?thesis using False lt by (auto simp add: less_imp_le)
  qed
qed simp

lemma block_list_set: "set (block_list is ub) = block_pairs is ub"
  by (auto simp add: block_list_def block_pairs_def)

lemma block_list_sorted:
  "sorted_wrt (<) is \<Longrightarrow> sorted_wrt (<) (block_list is ub)"
proof (induction "is")
  case (Cons i rest)
  have row: "sorted_wrt (<) (map (Pair i) [i..ub - 1])"
    using sorted_upto [of i "ub - 1"] distinct_upto [of i "ub - 1"]
    by (simp add: sorted_wrt_map strict_sorted_iff)
  have rest: "sorted_wrt (<) (block_list rest ub)" using Cons by simp
  have "\<forall>x\<in>set (map (Pair i) [i..ub - 1]). \<forall>y\<in>set (block_list rest ub). x < y"
    using Cons.prems by (auto simp add: block_list_set block_pairs_def)
  with row rest show ?case by (simp add: block_list_def sorted_wrt_append)
qed (simp add: block_list_def)

lemma neutral_block_run:
  "neutral_block param temperature segments A =
     run_pairs (pair_energy param temperature segments)
       (block_list [lowerBoundIndexForGroup segments ! 0 ..
                    UpperBoundIndexForNeutralComponents segments - 1]
          (UpperBoundIndexForNeutralComponents segments)) A"
  unfolding neutral_block_def by (rule neutral_outer_run) simp

lemma neutral_block_list_set:
  "p \<in> set (block_list [lowerBoundIndexForGroup segments ! 0 ..
                    UpperBoundIndexForNeutralComponents segments - 1]
          (UpperBoundIndexForNeutralComponents segments)) \<longleftrightarrow> neutral_pair segments (fst p) (snd p)"
  using neutral_pair_block [of "fst p" "snd p" segments] by (simp add: block_list_set)

lemma neutral_block_list_sorted:
  "sorted_wrt (<) (block_list [lowerBoundIndexForGroup segments ! 0 ..
                    UpperBoundIndexForNeutralComponents segments - 1]
          (UpperBoundIndexForNeutralComponents segments))"
  by (rule block_list_sorted) (simp add: strict_sorted_iff)

lemma neutral_block_list_mem:
  "(a, b) \<in> set (block_list [lowerBoundIndexForGroup segments ! 0 ..
                    UpperBoundIndexForNeutralComponents segments - 1]
          (UpperBoundIndexForNeutralComponents segments)) \<longleftrightarrow> neutral_pair segments a b"
  using neutral_block_list_set [of "(a, b)" segments] by simp

lemma neutral_block_list_all:
  "(\<forall>y\<in>set (block_list [lowerBoundIndexForGroup segments ! 0 ..
                    UpperBoundIndexForNeutralComponents segments - 1]
          (UpperBoundIndexForNeutralComponents segments)). Q y) \<longleftrightarrow>
   (\<forall>a b. neutral_pair segments a b \<longrightarrow> Q (a, b))"
  unfolding Ball_def split_paired_All neutral_block_list_mem ..

lemma pair_le_int: "(a, b) \<le> (i, j) \<longleftrightarrow> a < i \<or> a = i \<and> b \<le> j"
  for a b i j :: int
  by auto

lemma neutral_block_taken:
  "(i, j) \<in> set (takeWhile (returns V)
      (block_list [lowerBoundIndexForGroup segments ! 0 ..
                    UpperBoundIndexForNeutralComponents segments - 1]
          (UpperBoundIndexForNeutralComponents segments))) \<longleftrightarrow>
   neutral_pair segments i j \<and>
   (\<forall>i' j'. neutral_pair segments i' j' \<and> (i' < i \<or> i' = i \<and> j' \<le> j) \<longrightarrow> (\<exists>v. V i' j' = Inr v))"
  unfolding takeWhile_sorted [OF neutral_block_list_sorted] neutral_block_list_all
    neutral_block_list_mem pair_le_int returns_def
  by auto

lemma pair_energy_returns:
  assumes "parallel_vectors segments" "segment_index segments i" "segment_index segments j"
  shows "(\<exists>v. pair_energy param temperature segments i j = Inr v) \<longleftrightarrow>
           \<not> hb_raises param segments i j"
  unfolding pair_energy_value [OF assms] by (auto simp add: hb_raises_def)

lemma pair_energy_raises:
  assumes "parallel_vectors segments" "segment_index segments i" "segment_index segments j"
  shows "hb_raises param segments i j \<longleftrightarrow>
           (\<exists>msg. pair_energy param temperature segments i j = Inl (RuntimeError msg))"
  unfolding pair_energy_value [OF assms] by (auto simp add: hb_raises_def)

lemma hb_raises_swapped:
  "0 \<le> SigmaHB param \<Longrightarrow> hb_raises param segments i j \<longleftrightarrow> hb_swapped param segments i j"
  using hb_sign_exclusive [of param segments i j] hb_sign_exclusive [of param segments j i]
  by (auto simp add: hb_raises_def hb_swapped_def)

lemma neutral_block_taken_reached:
  assumes ok: "neutral_block_ok segments"
  shows "(i, j) \<in> set (takeWhile (returns (pair_energy param temperature segments))
      (block_list [lowerBoundIndexForGroup segments ! 0 ..
                    UpperBoundIndexForNeutralComponents segments - 1]
          (UpperBoundIndexForNeutralComponents segments))) \<longleftrightarrow>
   neutral_pair segments i j \<and> write_reached param segments i j"
proof -
  have par: "parallel_vectors segments" using ok by (simp add: neutral_block_ok_def)
  have r: "(\<exists>v. pair_energy param temperature segments i' j' = Inr v) \<longleftrightarrow>
           \<not> hb_raises param segments i' j'" if "neutral_pair segments i' j'" for i' j'
    using par neutral_pair_index [OF ok that] by (rule pair_energy_returns)
  show ?thesis
    unfolding neutral_block_taken write_reached_def using r by blast
qed

lemma neutral_block_reached:
  assumes ok: "neutral_block_ok segments"
    and run: "neutral_block param temperature segments A = (A', err)"
    and np: "neutral_pair segments i j"
    and reach: "write_reached param segments i j"
  shows "pair_energy param temperature segments i j = Inr (A' (j, i))"
proof -
  let ?ps = "block_list [lowerBoundIndexForGroup segments ! 0 ..
                    UpperBoundIndexForNeutralComponents segments - 1]
          (UpperBoundIndexForNeutralComponents segments)"
  let ?V = "pair_energy param temperature segments"
  have "(i, j) \<in> set (takeWhile (returns ?V) ?ps)"
    using np reach by (simp add: neutral_block_taken_reached [OF ok])
  moreover have "distinct ?ps"
    using neutral_block_list_sorted [of segments] by (simp add: strict_sorted_iff)
  ultimately have "?V i j = Inr (fst (run_pairs ?V ?ps A) (j, i))" by (rule run_pairs_written)
  then show ?thesis using run by (simp add: neutral_block_run)
qed

lemma neutral_block_not_reached:
  assumes ok: "neutral_block_ok segments"
    and run: "neutral_block param temperature segments A = (A', err)"
    and reach: "\<not> write_reached param segments i j"
  shows "A' (j, i) = A (j, i)"
proof -
  let ?ps = "block_list [lowerBoundIndexForGroup segments ! 0 ..
                    UpperBoundIndexForNeutralComponents segments - 1]
          (UpperBoundIndexForNeutralComponents segments)"
  let ?V = "pair_energy param temperature segments"
  have "(i, j) \<notin> set (takeWhile (returns ?V) ?ps)"
    using reach by (simp add: neutral_block_taken_reached [OF ok])
  then have "fst (run_pairs ?V ?ps A) (j, i) = A (j, i)" by (rule run_pairs_untouched)
  then show ?thesis using run by (simp add: neutral_block_run)
qed

lemma not_write_reached:
  assumes "neutral_pair segments i' j'" "hb_raises param segments i' j'"
    "i' < i \<or> i' = i \<and> j' \<le> j"
  shows "\<not> write_reached param segments i j"
  using assms unfolding write_reached_def by blast

lemma neutral_block_completes_iff:
  assumes ok: "neutral_block_ok segments"
    and run: "neutral_block param temperature segments A = (A', err)"
  shows "err = None \<longleftrightarrow> (\<forall>i j. neutral_pair segments i j \<longrightarrow> \<not> hb_raises param segments i j)"
proof -
  let ?ps = "block_list [lowerBoundIndexForGroup segments ! 0 ..
                    UpperBoundIndexForNeutralComponents segments - 1]
          (UpperBoundIndexForNeutralComponents segments)"
  let ?V = "pair_energy param temperature segments"
  have par: "parallel_vectors segments" using ok by (simp add: neutral_block_ok_def)
  have r: "(\<exists>v. ?V i' j' = Inr v) \<longleftrightarrow> \<not> hb_raises param segments i' j'"
    if "neutral_pair segments i' j'" for i' j'
    using par neutral_pair_index [OF ok that] by (rule pair_energy_returns)
  have "err = None \<longleftrightarrow> (\<forall>p\<in>set ?ps. returns ?V p)"
    using run run_pairs_completes [of ?V ?ps A] by (simp add: neutral_block_run)
  also have "\<dots> \<longleftrightarrow> (\<forall>i j. neutral_pair segments i j \<longrightarrow> (\<exists>v. ?V i j = Inr v))"
    unfolding neutral_block_list_all returns_def by simp
  also have "\<dots> \<longleftrightarrow> (\<forall>i j. neutral_pair segments i j \<longrightarrow> \<not> hb_raises param segments i j)"
    using r by blast
  finally show ?thesis .
qed

lemma neutral_block_first_error:
  assumes ok: "neutral_block_ok segments"
    and np: "neutral_pair segments i j"
    and e: "pair_energy param temperature segments i j = Inl e"
    and before: "\<And>i' j'. neutral_pair segments i' j' \<Longrightarrow> i' < i \<or> i' = i \<and> j' < j \<Longrightarrow>
                   \<not> hb_raises param segments i' j'"
  shows "snd (neutral_block param temperature segments A) = Some e"
proof -
  let ?ps = "block_list [lowerBoundIndexForGroup segments ! 0 ..
                    UpperBoundIndexForNeutralComponents segments - 1]
          (UpperBoundIndexForNeutralComponents segments)"
  let ?V = "pair_energy param temperature segments"
  have par: "parallel_vectors segments" using ok by (simp add: neutral_block_ok_def)
  have r: "(\<exists>v. ?V i' j' = Inr v) \<longleftrightarrow> \<not> hb_raises param segments i' j'"
    if "neutral_pair segments i' j'" for i' j'
    using par neutral_pair_index [OF ok that] by (rule pair_energy_returns)
  have 1: "(i, j) \<in> set ?ps" using np by (simp add: neutral_block_list_set)
  have 2: "?V (fst (i, j)) (snd (i, j)) = Inl e" using e by simp
  have 3: "\<forall>y\<in>set ?ps. y < (i, j) \<longrightarrow> returns ?V y"
  proof (intro ballI impI)
    fix y assume y: "y \<in> set ?ps" "y < (i, j)"
    obtain i' j' where yy: "y = (i', j')" by (cases y)
    have n: "neutral_pair segments i' j'" using y(1) by (simp add: neutral_block_list_set yy)
    have "i' < i \<or> i' = i \<and> j' < j" using y(2) by (auto simp add: yy)
    from before [OF n this] r [OF n] show "returns ?V y" by (simp add: returns_def yy)
  qed
  from neutral_block_list_sorted 1 2 3 have "snd (run_pairs ?V ?ps A) = Some e"
    by (rule run_pairs_first_error)
  then show ?thesis by (simp add: neutral_block_run)
qed

text \<open>
  Claim C2, amended. In the term-evaluation pass, for every pair \<open>lowerBoundIndexForGroup[0]
  \<le> i \<le> j < max(upperBoundIndexForGroup[0..2])\<close> for which no hydrogen-bond branch fires,
  the value computed is \<open>0.5*Aeff*alpha*5.95e6*(sigma_i+sigma_j)\<^sup>2\<close> when \<^verbatim>\<open>sw_misfit\<close> is 0,
  and that value plus \<open>0.5*Aeff*alpha*5.95e6*(sigma_i+sigma_j)*fCorr*(sigmaTrans_i +
  sigmaTrans_j)\<close> when \<^verbatim>\<open>sw_misfit\<close> is 1 or 2. It is written to \<^verbatim>\<open>A_int(j, i)\<close> when no pair
  visited before \<open>(i, j)\<close> throws; otherwise \<^verbatim>\<open>A_int(j, i)\<close> keeps the value it had before the
  call. No entry outside the index range is written, and the pass completes without
  exception exactly when no pair of the range throws; the pairs that throw are those for
  which the body of the inner loop ends in a \<^verbatim>\<open>throw\<close> statement.
\<close>

theorem neutral_block_misfit_entries:
  assumes ok: "neutral_block_ok segments"
    and sw: "sw_misfit param = 0 \<or> sw_misfit param = 1 \<or> sw_misfit param = 2"
    and run: "neutral_block param temperature segments A_int = (A', err)"
  shows "(\<forall>i j. neutral_pair segments i j \<and> \<not> hb_branch_fires param segments i j \<longrightarrow>
            pair_energy param temperature segments i j = Inr (misfit_claimed param segments i j) \<and>
            (write_reached param segments i j \<longrightarrow> A' (j, i) = misfit_claimed param segments i j) \<and>
            (\<not> write_reached param segments i j \<longrightarrow> A' (j, i) = A_int (j, i))) \<and>
         (\<forall>r c. \<not> neutral_pair segments c r \<longrightarrow> A' (r, c) = A_int (r, c)) \<and>
         (err = None \<longleftrightarrow> (\<forall>i j. neutral_pair segments i j \<longrightarrow> \<not> hb_raises param segments i j)) \<and>
         (\<forall>i j. neutral_pair segments i j \<longrightarrow>
            (hb_raises param segments i j \<longleftrightarrow>
               (\<exists>msg. pair_energy param temperature segments i j = Inl (RuntimeError msg))))"
proof -
  have par: "parallel_vectors segments" using ok by (simp add: neutral_block_ok_def)
  have 1: "pair_energy param temperature segments i j = Inr (misfit_claimed param segments i j) \<and>
            (write_reached param segments i j \<longrightarrow> A' (j, i) = misfit_claimed param segments i j) \<and>
            (\<not> write_reached param segments i j \<longrightarrow> A' (j, i) = A_int (j, i))"
    if np: "neutral_pair segments i j" and nf: "\<not> hb_branch_fires param segments i j" for i j
  proof -
    have m: "misfit_term param segments i j = misfit_claimed param segments i j"
      using sw by (auto simp add: misfit_term_def misfit_claimed_def)
    have v: "pair_energy param temperature segments i j = Inr (misfit_claimed param segments i j)"
      using nf unfolding pair_energy_value [OF par neutral_pair_index [OF ok np]] m
      by (auto simp add: hb_branch_fires_def)
    have w: "A' (j, i) = misfit_claimed param segments i j" if "write_reached param segments i j"
      using neutral_block_reached [OF ok run np that] v by simp
    have u: "A' (j, i) = A_int (j, i)" if "\<not> write_reached param segments i j"
      using ok run that by (rule neutral_block_not_reached)
    from v w u show ?thesis by blast
  qed
  have 2: "A' (r, c) = A_int (r, c)" if "\<not> neutral_pair segments c r" for r c
    using run that by (rule neutral_block_outside)
  have 3: "err = None \<longleftrightarrow> (\<forall>i j. neutral_pair segments i j \<longrightarrow> \<not> hb_raises param segments i j)"
    using ok run by (rule neutral_block_completes_iff)
  show ?thesis
  proof (intro conjI)
    show "\<forall>i j. neutral_pair segments i j \<and> \<not> hb_branch_fires param segments i j \<longrightarrow>
            pair_energy param temperature segments i j = Inr (misfit_claimed param segments i j) \<and>
            (write_reached param segments i j \<longrightarrow> A' (j, i) = misfit_claimed param segments i j) \<and>
            (\<not> write_reached param segments i j \<longrightarrow> A' (j, i) = A_int (j, i))"
      using 1 by blast
    show "\<forall>r c. \<not> neutral_pair segments c r \<longrightarrow> A' (r, c) = A_int (r, c)"
      using 2 by simp
    show "err = None \<longleftrightarrow> (\<forall>i j. neutral_pair segments i j \<longrightarrow> \<not> hb_raises param segments i j)"
      by (rule 3)
    show "\<forall>i j. neutral_pair segments i j \<longrightarrow>
            (hb_raises param segments i j \<longleftrightarrow>
               (\<exists>msg. pair_energy param temperature segments i j = Inl (RuntimeError msg)))"
      using pair_energy_raises [OF par neutral_pair_index [OF ok]] by blast
  qed
qed

lemma pair_energy_hb:
  assumes par: "parallel_vectors segments"
    and i: "segment_index segments i" and j: "segment_index segments j"
    and s: "0 \<le> SigmaHB param"
  shows "pair_energy param temperature segments i j =
     (if hb_donor_acceptor param segments i j
      then Inr (misfit_term param segments i j + hb_amount param temperature segments i j)
      else if hb_sign param segments i j \<and> hb_swapped param segments i j
      then Inl (RuntimeError
                ''This should not happen. Wrong assumption calculating interaction matrix. 1'')
      else if hb_swapped param segments i j
      then Inl (RuntimeError
                ''This should not happen. Wrong assumption calculating interaction matrix. 2'')
      else Inr (misfit_term param segments i j))"
  unfolding pair_energy_value [OF par i j]
  using hb_sign_exclusive [OF s, of segments i j] hb_sign_exclusive [OF s, of segments j i]
  by (auto simp add: hb_donor_acceptor_def hb_swapped_def hb_amount_def)

lemma ebind_Inl_iff: "ebind m f = Inl e \<longleftrightarrow> m = Inl e \<or> (\<exists>v. m = Inr v \<and> f v = Inl e)"
  by (cases m) simp_all

lemma vget_error: "vget xs i = Inl e \<Longrightarrow> e = OutOfBounds"
  by (simp add: vget_def split: if_splits)

lemma vset_error: "vset xs i v = Inl e \<Longrightarrow> e = OutOfBounds"
  by (simp add: vset_def split: if_splits)

lemma partial_row_error: "partial_row h i js Ps = Inl e \<Longrightarrow> e = OutOfBounds"
  by (induction js arbitrary: Ps) (auto simp add: ebind_Inl_iff dest: vget_error vset_error)

lemma partial_rows_error: "partial_rows n h ks Ps = Inl e \<Longrightarrow> e = OutOfBounds"
  by (induction ks arbitrary: Ps) (auto simp add: ebind_Inl_iff dest: partial_row_error)

lemma partial_reference_pass_error: "partial_reference_pass n hs Ps = Inl e \<Longrightarrow> e = OutOfBounds"
  by (induction hs arbitrary: Ps) (auto simp add: ebind_Inl_iff dest: partial_rows_error)

lemma partial_zero_row_error: "partial_zero_row h ks Ps = Inl e \<Longrightarrow> e = OutOfBounds"
  by (induction ks arbitrary: Ps) (auto simp add: ebind_Inl_iff dest: vget_error vset_error)

lemma partial_zero_diagonal_error: "partial_zero_diagonal n hs Ps = Inl e \<Longrightarrow> e = OutOfBounds"
  by (induction hs arbitrary: Ps) (auto simp add: ebind_Inl_iff dest: partial_zero_row_error)

lemma calculateInteractionMatrix_thrown:
  assumes "neutral_block param temperature segments A_int = (A1, Some e)"
  shows "calculateInteractionMatrix segments A_int Ps param temperature = (A1, Ps, Some e)"
  using assms by (simp add: calculateInteractionMatrix_def)

lemma calculateInteractionMatrix_not_thrown:
  assumes "neutral_block param temperature segments A_int = (A1, None)"
    and "calculateInteractionMatrix segments A_int Ps param temperature = (A', Ps', err)"
  shows "err = None \<or> err = Some OutOfBounds"
proof -
  let ?n = "int (size_segments segments)"
  let ?hs = "[0..numberOfPartialInteractionMatrices param - 1]"
  let ?r = "ebind (partial_reference_pass ?n ?hs Ps) (partial_zero_diagonal ?n ?hs)"
  show ?thesis
  proof (cases ?r)
    case (Inl e)
    then have "e = OutOfBounds"
      by (auto simp add: ebind_Inl_iff dest: partial_reference_pass_error partial_zero_diagonal_error)
    with Inl assms show ?thesis
      by (auto simp add: calculateInteractionMatrix_def Let_def split: if_splits)
  next
    case (Inr Ps2)
    with assms show ?thesis
      by (auto simp add: calculateInteractionMatrix_def Let_def split: if_splits)
  qed
qed

text \<open>
  Claim C3, amended. For a threshold \<open>SigmaHB \<ge> 0\<close> and a pair \<open>(i, j)\<close> of the neutral block
  whose assignment is reached (no pair visited before it, nor the pair itself, has the
  classes in the swapped orientation): the value written to \<^verbatim>\<open>A_int(j, i)\<close> is the misfit
  value plus the hydrogen-bond contribution exactly when \<open>sigma_i < -SigmaHB\<close>,
  \<open>sigma_j > SigmaHB\<close>, \<open>hbType_i = 1\<close>, \<open>hbType_j = 2\<close>, or \<open>sigma_j < -SigmaHB\<close>,
  \<open>sigma_i > SigmaHB\<close>, \<open>hbType_i = 2\<close>, \<open>hbType_j = 1\<close>, and the misfit value alone otherwise;
  the contribution is \<open>Aeff*CHB_T*(sigma_positive - SigmaHB)*(sigma_negative + SigmaHB)\<close> with
  \<open>CHB_T = CHB*3.67e7*max(0, 1 - CHBT + CHBT*298.15/T)\<close>. A pair whose assignment is not
  reached keeps the entry it had before the call, whatever its signs and classes. The
  pass completes without exception exactly when no pair of the block is swapped.
\<close>

theorem neutral_block_hydrogen_bond:
  assumes ok: "neutral_block_ok segments" and s: "0 \<le> SigmaHB param"
    and run: "neutral_block param temperature segments A_int = (A', err)"
    and np: "neutral_pair segments i j"
  shows "(write_reached param segments i j \<longrightarrow>
            (hb_donor_acceptor param segments i j \<longrightarrow>
               A' (j, i) = misfit_term param segments i j + hb_amount param temperature segments i j) \<and>
            (\<not> hb_donor_acceptor param segments i j \<longrightarrow>
               A' (j, i) = misfit_term param segments i j)) \<and>
         (\<not> write_reached param segments i j \<longrightarrow> A' (j, i) = A_int (j, i)) \<and>
         (write_reached param segments i j \<longleftrightarrow>
            (\<forall>i' j'. neutral_pair segments i' j' \<and> (i' < i \<or> i' = i \<and> j' \<le> j) \<longrightarrow>
               \<not> hb_swapped param segments i' j')) \<and>
         (err = None \<longleftrightarrow>
            (\<forall>i' j'. neutral_pair segments i' j' \<longrightarrow> \<not> hb_swapped param segments i' j')) \<and>
         (hb_donor_acceptor param segments i j \<longrightarrow>
            pair_energy param temperature segments i j =
              Inr (misfit_term param segments i j + hb_amount param temperature segments i j)) \<and>
         (\<not> hb_donor_acceptor param segments i j \<and> \<not> hb_swapped param segments i j \<longrightarrow>
            pair_energy param temperature segments i j = Inr (misfit_term param segments i j)) \<and>
         (hb_swapped param segments i j \<longrightarrow>
            (\<exists>msg. pair_energy param temperature segments i j = Inl (RuntimeError msg))) \<and>
         CHB_T param temperature =
           CHB param * 36700000 * max 0 (1 - CHBT param + CHBT param * 298.15 / temperature)"
proof -
  have par: "parallel_vectors segments" using ok by (simp add: neutral_block_ok_def)
  note v = pair_energy_hb [OF par neutral_pair_index [OF ok np] s, of temperature]
  have disj: "\<not> (hb_donor_acceptor param segments i j \<and> hb_swapped param segments i j)"
    using hb_sign_exclusive [OF s, of segments i j] hb_sign_exclusive [OF s, of segments j i]
    by (auto simp add: hb_donor_acceptor_def hb_swapped_def)
  have rs: "hb_raises param segments i' j' \<longleftrightarrow> hb_swapped param segments i' j'" for i' j'
    using s by (rule hb_raises_swapped)
  have 1: "write_reached param segments i j \<longrightarrow>
            (hb_donor_acceptor param segments i j \<longrightarrow>
               A' (j, i) = misfit_term param segments i j + hb_amount param temperature segments i j) \<and>
            (\<not> hb_donor_acceptor param segments i j \<longrightarrow>
               A' (j, i) = misfit_term param segments i j)"
  proof
    assume reach: "write_reached param segments i j"
    have w: "pair_energy param temperature segments i j = Inr (A' (j, i))"
      using ok run np reach by (rule neutral_block_reached)
    have "\<not> hb_raises param segments i j"
      using reach np by (auto simp add: write_reached_def)
    then have ns: "\<not> hb_swapped param segments i j" by (simp add: rs)
    show "(hb_donor_acceptor param segments i j \<longrightarrow>
               A' (j, i) = misfit_term param segments i j + hb_amount param temperature segments i j) \<and>
            (\<not> hb_donor_acceptor param segments i j \<longrightarrow>
               A' (j, i) = misfit_term param segments i j)"
      using w ns by (auto simp add: v)
  qed
  have 2: "\<not> write_reached param segments i j \<longrightarrow> A' (j, i) = A_int (j, i)"
    using neutral_block_not_reached [OF ok run] by blast
  have 3: "write_reached param segments i j \<longleftrightarrow>
            (\<forall>i' j'. neutral_pair segments i' j' \<and> (i' < i \<or> i' = i \<and> j' \<le> j) \<longrightarrow>
               \<not> hb_swapped param segments i' j')"
    by (simp add: write_reached_def rs)
  have 4: "err = None \<longleftrightarrow>
            (\<forall>i' j'. neutral_pair segments i' j' \<longrightarrow> \<not> hb_swapped param segments i' j')"
    using neutral_block_completes_iff [OF ok run] by (simp add: rs)
  have 5: "hb_donor_acceptor param segments i j \<longrightarrow>
            pair_energy param temperature segments i j =
              Inr (misfit_term param segments i j + hb_amount param temperature segments i j)"
    by (simp add: v)
  have 6: "\<not> hb_donor_acceptor param segments i j \<and> \<not> hb_swapped param segments i j \<longrightarrow>
            pair_energy param temperature segments i j = Inr (misfit_term param segments i j)"
    by (simp add: v)
  have 7: "hb_swapped param segments i j \<longrightarrow>
            (\<exists>msg. pair_energy param temperature segments i j = Inl (RuntimeError msg))"
    using disj by (auto simp add: v)
  have 8: "CHB_T param temperature =
           CHB param * 36700000 * max 0 (1 - CHBT param + CHBT param * 298.15 / temperature)"
    by (simp add: CHB_T_closed CHB_T_closed_def)
  from 1 2 3 4 5 6 7 8 show ?thesis by (intro conjI)
qed

text \<open>
  Claim C4. For a threshold \<open>SigmaHB \<ge> 0\<close>, \<^verbatim>\<open>calculateInteractionMatrix\<close> ends with the
  \<^verbatim>\<open>runtime_error\<close> exactly when some pair of the neutral block satisfies the sign
  condition with the classes in the opposite orientation (the segment with
  \<open>sigma < -SigmaHB\<close> carries class 2, the one with \<open>sigma > SigmaHB\<close> class 1), and no entry
  of such a pair is written.
\<close>

theorem wrong_orientation_raises:
  assumes ok: "neutral_block_ok segments" and s: "0 \<le> SigmaHB param"
    and run: "calculateInteractionMatrix segments A_int Ps param temperature = (A', Ps', err)"
  shows "((\<exists>msg. err = Some (RuntimeError msg)) \<longleftrightarrow>
            (\<exists>i j. neutral_pair segments i j \<and> hb_swapped param segments i j)) \<and>
         (\<forall>i j. neutral_pair segments i j \<and> hb_swapped param segments i j \<longrightarrow>
            A' (j, i) = A_int (j, i))"
proof -
  have par: "parallel_vectors segments" using ok by (simp add: neutral_block_ok_def)
  obtain A1 e1 where nb: "neutral_block param temperature segments A_int = (A1, e1)"
    by (cases "neutral_block param temperature segments A_int")
  have disj: "\<not> (hb_donor_acceptor param segments i j \<and> hb_swapped param segments i j)" for i j
    using hb_sign_exclusive [OF s, of segments i j] hb_sign_exclusive [OF s, of segments j i]
    by (auto simp add: hb_donor_acceptor_def hb_swapped_def)
  have sw_err: "\<exists>msg. pair_energy param temperature segments i j = Inl (RuntimeError msg)"
    if "neutral_pair segments i j" "hb_swapped param segments i j" for i j
    using that disj [of i j] by (auto simp add: pair_energy_hb [OF par neutral_pair_index [OF ok that(1)] s])
  have err_sw: "hb_swapped param segments i j \<and> (\<exists>msg. e = RuntimeError msg)"
    if "neutral_pair segments i j" "pair_energy param temperature segments i j = Inl e" for i j e
    using that(2) by (auto simp add: pair_energy_hb [OF par neutral_pair_index [OF ok that(1)] s] split: if_splits)
  show ?thesis
  proof (cases e1)
    case None
    have no: "\<not> hb_swapped param segments i j" if "neutral_pair segments i j" for i j
    proof
      assume "hb_swapped param segments i j"
      with that sw_err obtain msg where "pair_energy param temperature segments i j = Inl (RuntimeError msg)"
        by blast
      moreover have "pair_energy param temperature segments i j = Inr (A1 (j, i))"
        using nb None that by (intro neutral_block_written) simp_all
      ultimately show False by simp
    qed
    have "err = None \<or> err = Some OutOfBounds"
      using nb None run by (intro calculateInteractionMatrix_not_thrown) simp_all
    with no show ?thesis by auto
  next
    case (Some e)
    have res: "A' = A1" "err = Some e"
      using calculateInteractionMatrix_thrown [of param temperature segments A_int A1 e Ps] nb Some run
      by simp_all
    from neutral_block_error [of param temperature segments A_int A1 e] nb Some
    obtain i j where ij: "neutral_pair segments i j" "pair_energy param temperature segments i j = Inl e"
      by auto
    from err_sw [OF ij] have 1: "(\<exists>msg. err = Some (RuntimeError msg)) \<and>
            (\<exists>i j. neutral_pair segments i j \<and> hb_swapped param segments i j)"
      using ij(1) res by auto
    have 2: "A' (j, i) = A_int (j, i)" if "neutral_pair segments i j" "hb_swapped param segments i j" for i j
    proof -
      from sw_err [OF that] obtain msg where "pair_energy param temperature segments i j = Inl (RuntimeError msg)"
        by blast
      moreover have "A1 (j, i) = A_int (j, i) \<or> pair_energy param temperature segments i j = Inr (A1 (j, i))"
        using nb that(1) by (intro neutral_block_cell)
      ultimately show ?thesis using res by auto
    qed
    from 1 2 show ?thesis by auto
  qed
qed

section \<open>The reference-state passes\<close>

lemma reference_row_value:
  "distinct js \<Longrightarrow> i \<notin> set js \<Longrightarrow>
   reference_row i js A (r, c) =
     (if c = i \<and> r \<in> set js then A (r, i) - 0.5 * (A (i, i) + A (r, r)) else A (r, c))"
proof (induction js arbitrary: A)
  case Nil
  then show ?case by (simp add: reference_row_def)
next
  case (Cons j js)
  let ?A1 = "A((j, i) := A (j, i) - 0.5 * (A (i, i) + A (j, j)))"
  have step: "reference_row i (j # js) A = reference_row i js ?A1" by (simp add: reference_row_def)
  have IH: "reference_row i js ?A1 (r, c) =
     (if c = i \<and> r \<in> set js then ?A1 (r, i) - 0.5 * (?A1 (i, i) + ?A1 (r, r)) else ?A1 (r, c))"
    using Cons by simp
  from Cons.prems have ne: "j \<noteq> i" "j \<notin> set js" by auto
  show ?case unfolding step IH using ne by auto
qed

lemma reference_rows_value:
  "distinct ks \<Longrightarrow>
   fold (\<lambda>i A. reference_row i [i + 1..n - 1] A) ks A = reference_shift n (set ks) A"
proof (induction ks arbitrary: A)
  case Nil
  then show ?case by (simp add: reference_shift_def)
next
  case (Cons i ks)
  let ?A1 = "reference_row i [i + 1..n - 1] A"
  have A1: "?A1 (r, c) = (if c = i \<and> i < r \<and> r < n then A (r, i) - 0.5 * (A (i, i) + A (r, r)) else A (r, c))"
    for r c
    by (subst reference_row_value) auto
  have "fold (\<lambda>i A. reference_row i [i + 1..n - 1] A) (i # ks) A = reference_shift n (set ks) ?A1"
    using Cons by simp
  also have "\<dots> = reference_shift n (set (i # ks)) A"
    using Cons.prems by (auto simp add: reference_shift_def A1 fun_eq_iff)
  finally show ?case .
qed

lemma reference_pass_value:
  "reference_pass n A (r, c) =
     (if 0 \<le> c \<and> c < r \<and> r < n then A (r, c) - 0.5 * (A (c, c) + A (r, r)) else A (r, c))"
  unfolding reference_pass_def
  by (subst reference_rows_value) (auto simp add: reference_shift_def)

lemma zero_diagonal_fold:
  "fold (\<lambda>i A. A((i, i) := 0)) ks A = (\<lambda>(r, c). if r = c \<and> r \<in> set ks then 0 else A (r, c))"
  by (induction ks arbitrary: A) (auto simp add: fun_eq_iff)

lemma zero_diagonal_value:
  "zero_diagonal n A (r, c) = (if r = c \<and> 0 \<le> r \<and> r < n then 0 else A (r, c))"
  by (auto simp add: zero_diagonal_def zero_diagonal_fold)

lemma partial_row_ok:
  "0 \<le> h \<Longrightarrow> h < int (length Ps) \<Longrightarrow>
   partial_row h i js Ps = Inr (Ps[nat h := reference_row i js (Ps ! nat h)])"
proof (induction js arbitrary: Ps)
  case Nil
  then show ?case by (simp add: reference_row_def)
next
  case (Cons j js)
  let ?P1 = "(Ps ! nat h)((j, i) := (Ps ! nat h) (j, i) - 0.5 * ((Ps ! nat h) (i, i) + (Ps ! nat h) (j, j)))"
  have "partial_row h i (j # js) Ps = partial_row h i js (Ps[nat h := ?P1])"
    using Cons.prems by (simp add: vget_def vset_def)
  also have "\<dots> = Inr ((Ps[nat h := ?P1])[nat h := reference_row i js ((Ps[nat h := ?P1]) ! nat h)])"
    using Cons.prems by (intro Cons.IH) simp_all
  also have "\<dots> = Inr (Ps[nat h := reference_row i (j # js) (Ps ! nat h)])"
    using Cons.prems by (simp add: reference_row_def)
  finally show ?case .
qed

lemma partial_rows_ok:
  "0 \<le> h \<Longrightarrow> h < int (length Ps) \<Longrightarrow>
   partial_rows n h ks Ps =
     Inr (Ps[nat h := fold (\<lambda>i A. reference_row i [i + 1..n - 1] A) ks (Ps ! nat h)])"
proof (induction ks arbitrary: Ps)
  case Nil
  then show ?case by simp
next
  case (Cons i ks)
  let ?P1 = "reference_row i [i + 1..n - 1] (Ps ! nat h)"
  have "partial_rows n h (i # ks) Ps = partial_rows n h ks (Ps[nat h := ?P1])"
    using Cons.prems by (simp add: partial_row_ok)
  also have "\<dots> = Inr ((Ps[nat h := ?P1])[nat h :=
      fold (\<lambda>i A. reference_row i [i + 1..n - 1] A) ks ((Ps[nat h := ?P1]) ! nat h)])"
    using Cons.prems by (intro Cons.IH) simp_all
  also have "\<dots> = Inr (Ps[nat h := fold (\<lambda>i A. reference_row i [i + 1..n - 1] A) (i # ks) (Ps ! nat h)])"
    using Cons.prems by simp
  finally show ?case .
qed

lemma length_on_matrices [simp]: "length (on_matrices f hs Ps) = length Ps"
  by (simp add: on_matrices_def)

lemma nth_on_matrices:
  "k < length Ps \<Longrightarrow> on_matrices f hs Ps ! k = (if int k \<in> hs then f (Ps ! k) else Ps ! k)"
  by (simp add: on_matrices_def)

lemma on_matrices_step:
  assumes "0 \<le> h" "h < int (length Ps)" "h \<notin> hs"
  shows "on_matrices f hs (Ps[nat h := f (Ps ! nat h)]) = on_matrices f (insert h hs) Ps"
proof (rule nth_equalityI)
  show "length (on_matrices f hs (Ps[nat h := f (Ps ! nat h)])) = length (on_matrices f (insert h hs) Ps)"
    by simp
next
  fix k assume "k < length (on_matrices f hs (Ps[nat h := f (Ps ! nat h)]))"
  then have k: "k < length Ps" by simp
  show "on_matrices f hs (Ps[nat h := f (Ps ! nat h)]) ! k = on_matrices f (insert h hs) Ps ! k"
  proof (cases "k = nat h")
    case True
    with assms k show ?thesis by (simp add: nth_on_matrices)
  next
    case False
    with assms have "int k \<noteq> h" by auto
    with False assms k show ?thesis by (simp add: nth_on_matrices)
  qed
qed

lemma partial_reference_pass_ok:
  "distinct hs \<Longrightarrow> \<forall>h\<in>set hs. 0 \<le> h \<and> h < int (length Ps) \<Longrightarrow>
   partial_reference_pass n hs Ps = Inr (on_matrices (reference_pass n) (set hs) Ps)"
proof (induction hs arbitrary: Ps)
  case Nil
  show ?case by (simp add: on_matrices_def map_nth)
next
  case (Cons h hs)
  let ?Ps1 = "Ps[nat h := reference_pass n (Ps ! nat h)]"
  from Cons.prems have h: "0 \<le> h" "h < int (length Ps)" "h \<notin> set hs" by simp_all
  have "partial_reference_pass n (h # hs) Ps = partial_reference_pass n hs ?Ps1"
    using h by (simp add: partial_rows_ok reference_pass_def)
  also have "\<dots> = Inr (on_matrices (reference_pass n) (set hs) ?Ps1)"
    using Cons.prems by (intro Cons.IH) simp_all
  also have "\<dots> = Inr (on_matrices (reference_pass n) (set (h # hs)) Ps)"
    using on_matrices_step [OF h, of "reference_pass n"] by simp
  finally show ?case .
qed

lemma partial_zero_row_ok:
  "0 \<le> h \<Longrightarrow> h < int (length Ps) \<Longrightarrow>
   partial_zero_row h ks Ps = Inr (Ps[nat h := fold (\<lambda>i A. A((i, i) := 0)) ks (Ps ! nat h)])"
proof (induction ks arbitrary: Ps)
  case Nil
  then show ?case by simp
next
  case (Cons i ks)
  let ?P1 = "(Ps ! nat h)((i, i) := 0)"
  have "partial_zero_row h (i # ks) Ps = partial_zero_row h ks (Ps[nat h := ?P1])"
    using Cons.prems by (simp add: vget_def vset_def)
  also have "\<dots> = Inr ((Ps[nat h := ?P1])[nat h := fold (\<lambda>i A. A((i, i) := 0)) ks ((Ps[nat h := ?P1]) ! nat h)])"
    using Cons.prems by (intro Cons.IH) simp_all
  also have "\<dots> = Inr (Ps[nat h := fold (\<lambda>i A. A((i, i) := 0)) (i # ks) (Ps ! nat h)])"
    using Cons.prems by simp
  finally show ?case .
qed

lemma partial_zero_diagonal_ok:
  "distinct hs \<Longrightarrow> \<forall>h\<in>set hs. 0 \<le> h \<and> h < int (length Ps) \<Longrightarrow>
   partial_zero_diagonal n hs Ps = Inr (on_matrices (zero_diagonal n) (set hs) Ps)"
proof (induction hs arbitrary: Ps)
  case Nil
  show ?case by (simp add: on_matrices_def map_nth)
next
  case (Cons h hs)
  let ?Ps1 = "Ps[nat h := zero_diagonal n (Ps ! nat h)]"
  from Cons.prems have h: "0 \<le> h" "h < int (length Ps)" "h \<notin> set hs" by simp_all
  have "partial_zero_diagonal n (h # hs) Ps = partial_zero_diagonal n hs ?Ps1"
    using h by (simp add: partial_zero_row_ok zero_diagonal_def)
  also have "\<dots> = Inr (on_matrices (zero_diagonal n) (set hs) ?Ps1)"
    using Cons.prems by (intro Cons.IH) simp_all
  also have "\<dots> = Inr (on_matrices (zero_diagonal n) (set (h # hs)) Ps)"
    using on_matrices_step [OF h, of "zero_diagonal n"] by simp
  finally show ?case .
qed

lemma ebind_Inr_iff: "ebind m f = Inr y \<longleftrightarrow> (\<exists>v. m = Inr v \<and> f v = Inr y)"
  by (cases m) simp_all

lemma vset_length: "vset xs i v = Inr ys \<Longrightarrow> length ys = length xs"
  by (auto simp add: vset_def split: if_splits)

lemma partial_row_length: "partial_row h i js Ps = Inr Ps' \<Longrightarrow> length Ps' = length Ps"
  by (induction js arbitrary: Ps) (auto simp add: ebind_Inr_iff dest!: vset_length)

lemma partial_rows_length: "partial_rows n h ks Ps = Inr Ps' \<Longrightarrow> length Ps' = length Ps"
  by (induction ks arbitrary: Ps) (auto simp add: ebind_Inr_iff dest!: partial_row_length)

lemma partial_reference_pass_length:
  "partial_reference_pass n hs Ps = Inr Ps' \<Longrightarrow> length Ps' = length Ps"
  by (induction hs arbitrary: Ps) (auto simp add: ebind_Inr_iff dest!: partial_rows_length)

lemma partial_zero_row_length: "partial_zero_row h ks Ps = Inr Ps' \<Longrightarrow> length Ps' = length Ps"
  by (induction ks arbitrary: Ps) (auto simp add: ebind_Inr_iff dest!: vset_length)

lemma partial_zero_row_bounds:
  "partial_zero_row h ks Ps = Inr Ps' \<Longrightarrow> ks \<noteq> [] \<Longrightarrow> 0 \<le> h \<and> h < int (length Ps)"
  by (cases ks) (auto simp add: ebind_Inr_iff vget_def split: if_splits)

lemma partial_zero_diagonal_bounds:
  "partial_zero_diagonal n hs Ps = Inr Ps' \<Longrightarrow> 0 < n \<Longrightarrow>
   \<forall>h\<in>set hs. 0 \<le> h \<and> h < int (length Ps)"
proof (induction hs arbitrary: Ps)
  case Nil
  then show ?case by simp
next
  case (Cons h hs)
  from Cons.prems(1) obtain Ps1 where 1: "partial_zero_row h [0..n - 1] Ps = Inr Ps1"
    and 2: "partial_zero_diagonal n hs Ps1 = Inr Ps'"
    by (auto simp add: ebind_Inr_iff)
  have ne: "[0..n - 1] \<noteq> []" using Cons.prems(2) by (simp add: upto.simps)
  from partial_zero_row_bounds [OF 1 ne] have h: "0 \<le> h \<and> h < int (length Ps)" .
  have "length Ps1 = length Ps" using 1 by (rule partial_zero_row_length)
  with Cons.IH [OF 2 Cons.prems(2)] h show ?case by simp
qed

lemma calculateInteractionMatrix_reference:
  assumes sw: "sw_useSegmentReferenceStateForInteractionMatrix param = 1"
    and run: "calculateInteractionMatrix segments A_int Ps param temperature = (A', Ps', None)"
  shows "\<exists>A1. neutral_block param temperature segments A_int = (A1, None) \<and>
           A' = zero_diagonal (int (size_segments segments))
                  (reference_pass (int (size_segments segments)) A1)"
proof -
  obtain A1 e1 where nb: "neutral_block param temperature segments A_int = (A1, e1)"
    by (cases "neutral_block param temperature segments A_int")
  have e1: "e1 = None"
  proof (cases e1)
    case (Some e)
    with nb calculateInteractionMatrix_thrown [of param temperature segments A_int A1 e Ps] run
    show ?thesis by simp
  qed simp
  from run nb e1 sw have "A' = zero_diagonal (int (size_segments segments))
                  (reference_pass (int (size_segments segments)) A1)"
    by (auto simp add: calculateInteractionMatrix_def Let_def split: if_splits sum.splits)
  with nb e1 show ?thesis by simp
qed

lemma calculateInteractionMatrix_partial:
  assumes sw: "sw_useSegmentReferenceStateForInteractionMatrix param = 1"
    and st: "sw_calculateContactStatisticsAndAdditionalProperties param > 0"
    and run: "calculateInteractionMatrix segments A_int Ps param temperature = (A', Ps', None)"
  shows "\<exists>Ps1. partial_reference_pass (int (size_segments segments))
                   [0..numberOfPartialInteractionMatrices param - 1] Ps = Inr Ps1 \<and>
               partial_zero_diagonal (int (size_segments segments))
                   [0..numberOfPartialInteractionMatrices param - 1] Ps1 = Inr Ps'"
proof -
  obtain A1 where nb: "neutral_block param temperature segments A_int = (A1, None)"
    using calculateInteractionMatrix_reference [OF sw run] by blast
  from run nb sw st show ?thesis
    by (auto simp add: calculateInteractionMatrix_def Let_def ebind_Inr_iff split: if_splits sum.splits)
qed

text \<open>
  Claim C1. When \<^verbatim>\<open>sw_useSegmentReferenceStateForInteractionMatrix = 1\<close> and
  \<^verbatim>\<open>calculateInteractionMatrix\<close> returns, every entry \<^verbatim>\<open>A_int(j, i)\<close> with \<open>0 \<le> i < j <
  numberOfSegments\<close> is the value the term-evaluation pass left there minus half the sum
  of the two diagonal values that pass left, and every diagonal entry is zero; when
  moreover \<^verbatim>\<open>sw_calculateContactStatisticsAndAdditionalProperties > 0\<close>, the same holds for
  each of the \<^verbatim>\<open>numberOfPartialInteractionMatrices\<close> partial matrices, relative to their
  values at the call.
\<close>

theorem reference_state_renormalization:
  assumes sw: "sw_useSegmentReferenceStateForInteractionMatrix param = 1"
    and run: "calculateInteractionMatrix segments A_int Ps param temperature = (A', Ps', None)"
  shows "(\<forall>i j. 0 \<le> i \<and> i < j \<and> j < int (size_segments segments) \<longrightarrow>
            A' (j, i) = fst (neutral_block param temperature segments A_int) (j, i)
              - 0.5 * (fst (neutral_block param temperature segments A_int) (i, i)
                       + fst (neutral_block param temperature segments A_int) (j, j))) \<and>
         (\<forall>i. 0 \<le> i \<and> i < int (size_segments segments) \<longrightarrow> A' (i, i) = 0) \<and>
         (sw_calculateContactStatisticsAndAdditionalProperties param > 0 \<longrightarrow>
            (\<forall>h i j. 0 \<le> h \<and> h < numberOfPartialInteractionMatrices param \<and>
                 0 \<le> i \<and> i < j \<and> j < int (size_segments segments) \<longrightarrow>
               nat h < length Ps \<and> length Ps' = length Ps \<and>
               (Ps' ! nat h) (j, i) = (Ps ! nat h) (j, i)
                 - 0.5 * ((Ps ! nat h) (i, i) + (Ps ! nat h) (j, j))) \<and>
            (\<forall>h i. 0 \<le> h \<and> h < numberOfPartialInteractionMatrices param \<and>
                 0 \<le> i \<and> i < int (size_segments segments) \<longrightarrow>
               nat h < length Ps \<and> (Ps' ! nat h) (i, i) = 0))"
proof -
  let ?n = "int (size_segments segments)"
  let ?hs = "[0..numberOfPartialInteractionMatrices param - 1]"
  obtain A1 where nb: "neutral_block param temperature segments A_int = (A1, None)"
    and A': "A' = zero_diagonal ?n (reference_pass ?n A1)"
    using calculateInteractionMatrix_reference [OF sw run] by blast
  have 1: "\<forall>i j. 0 \<le> i \<and> i < j \<and> j < ?n \<longrightarrow>
            A' (j, i) = fst (neutral_block param temperature segments A_int) (j, i)
              - 0.5 * (fst (neutral_block param temperature segments A_int) (i, i)
                       + fst (neutral_block param temperature segments A_int) (j, j))"
    by (simp add: A' nb zero_diagonal_value reference_pass_value)
  have 2: "\<forall>i. 0 \<le> i \<and> i < ?n \<longrightarrow> A' (i, i) = 0"
    by (simp add: A' zero_diagonal_value)
  have 3: "(\<forall>h i j. 0 \<le> h \<and> h < numberOfPartialInteractionMatrices param \<and>
                 0 \<le> i \<and> i < j \<and> j < ?n \<longrightarrow>
               nat h < length Ps \<and> length Ps' = length Ps \<and>
               (Ps' ! nat h) (j, i) = (Ps ! nat h) (j, i)
                 - 0.5 * ((Ps ! nat h) (i, i) + (Ps ! nat h) (j, j))) \<and>
            (\<forall>h i. 0 \<le> h \<and> h < numberOfPartialInteractionMatrices param \<and>
                 0 \<le> i \<and> i < ?n \<longrightarrow>
               nat h < length Ps \<and> (Ps' ! nat h) (i, i) = 0)"
    if st: "sw_calculateContactStatisticsAndAdditionalProperties param > 0"
  proof (cases "0 < ?n")
    case False
    then show ?thesis by auto
  next
    case True
    obtain Ps1 where p1: "partial_reference_pass ?n ?hs Ps = Inr Ps1"
      and p2: "partial_zero_diagonal ?n ?hs Ps1 = Inr Ps'"
      using calculateInteractionMatrix_partial [OF sw st run] by blast
    have len1: "length Ps1 = length Ps" using p1 by (rule partial_reference_pass_length)
    have b1: "\<forall>h\<in>set ?hs. 0 \<le> h \<and> h < int (length Ps1)"
      using p2 True by (rule partial_zero_diagonal_bounds)
    then have b: "\<forall>h\<in>set ?hs. 0 \<le> h \<and> h < int (length Ps)" by (simp add: len1)
    have Ps1: "Ps1 = on_matrices (reference_pass ?n) (set ?hs) Ps"
      using partial_reference_pass_ok [OF _ b, of ?n] p1 by simp
    have Ps': "Ps' = on_matrices (zero_diagonal ?n) (set ?hs) Ps1"
      using partial_zero_diagonal_ok [OF _ b1, of ?n] p2 by simp
    have h_ok: "nat h < length Ps \<and> Ps' ! nat h = zero_diagonal ?n (reference_pass ?n (Ps ! nat h))"
      if "0 \<le> h" "h < numberOfPartialInteractionMatrices param" for h
    proof -
      from that have hs: "h \<in> set ?hs" by simp
      with b have lt: "nat h < length Ps" by auto
      with hs that(1) show ?thesis by (simp add: Ps' Ps1 nth_on_matrices)
    qed
    have len: "length Ps' = length Ps" by (simp add: Ps' Ps1)
    show ?thesis
      using h_ok len by (auto simp add: zero_diagonal_value reference_pass_value)
  qed
  from 1 2 3 show ?thesis by blast
qed

section \<open>Concrete runs\<close>

lemma neutral_block_no_error:
  assumes "\<And>i j. neutral_pair segments i j \<Longrightarrow> \<exists>v. pair_energy param temperature segments i j = Inr v"
  shows "snd (neutral_block param temperature segments A) = None"
proof (cases "snd (neutral_block param temperature segments A)")
  case (Some e)
  then have "neutral_block param temperature segments A = (fst (neutral_block param temperature segments A), Some e)"
    by (simp add: prod_eq_iff)
  from neutral_block_error [OF this] obtain i j where
    "neutral_pair segments i j" "pair_energy param temperature segments i j = Inl e" by blast
  with assms [of i j] show ?thesis by auto
qed simp

lemma calculateInteractionMatrix_plain:
  assumes "snd (neutral_block param temperature segments A) = None"
    and "sw_useSegmentReferenceStateForInteractionMatrix param \<noteq> 1"
  shows "calculateInteractionMatrix segments A Ps param temperature =
           (fst (neutral_block param temperature segments A), Ps, None)"
  using assms
  by (cases "neutral_block param temperature segments A")
     (simp add: calculateInteractionMatrix_def)

lemma two_segments_ok [simp]: "neutral_block_ok (two_segments s0 s1 h0 h1)"
  by (simp add: neutral_block_ok_def parallel_vectors_def two_segments_def
      UpperBoundIndexForNeutralComponents_def size_segments_def)

lemma two_segments_pair:
  "neutral_pair (two_segments s0 s1 h0 h1) i j \<longleftrightarrow> (i = 0 \<and> j = 0) \<or> (i = 0 \<and> j = 1) \<or> (i = 1 \<and> j = 1)"
  by (auto simp add: neutral_pair_def two_segments_def UpperBoundIndexForNeutralComponents_def)

lemma two_segments_index [simp]:
  "segment_index (two_segments s0 s1 h0 h1) 0" "segment_index (two_segments s0 s1 h0 h1) 1"
  by (simp_all add: segment_index_def two_segments_def size_segments_def)

lemma two_segments_size [simp]: "size_segments (two_segments s0 s1 h0 h1) = 2"
  by (simp add: size_segments_def two_segments_def)

lemma two_segments_parallel [simp]: "parallel_vectors (two_segments s0 s1 h0 h1)"
  by (simp add: parallel_vectors_def two_segments_def)

lemma two_segments_at [simp]:
  "sigma_at (two_segments s0 s1 h0 h1) 0 = s0" "sigma_at (two_segments s0 s1 h0 h1) 1 = s1"
  "hbType_at (two_segments s0 s1 h0 h1) 0 = h0" "hbType_at (two_segments s0 s1 h0 h1) 1 = h1"
  by (simp_all add: sigma_at_def hbType_at_def two_segments_def)

text \<open>
  The hypothesis \<open>SigmaHB \<ge> 0\<close> of the theorems on the hydrogen-bond branches: for a
  negative threshold both sign tests can hold for one pair, and the code examines the
  first one only.
\<close>

lemma negative_threshold_first_sign_test:
  "hb_sign (example_param (- 1 / 100) 0) (two_segments (- 1 / 200) (1 / 200) 2 1) 0 1 \<and>
   hb_sign (example_param (- 1 / 100) 0) (two_segments (- 1 / 200) (1 / 200) 2 1) 1 0 \<and>
   pair_energy (example_param (- 1 / 100) 0) 298.15 (two_segments (- 1 / 200) (1 / 200) 2 1) 0 1 =
     Inl (RuntimeError
       ''This should not happen. Wrong assumption calculating interaction matrix. 1'')"
  by (simp add: hb_sign_def pair_energy_value example_param_def)

lemma calculateInteractionMatrix_raised:
  assumes "snd (neutral_block param temperature segments A) = Some e"
  shows "calculateInteractionMatrix segments A Ps param temperature =
           (fst (neutral_block param temperature segments A), Ps, Some e)"
  using assms
  by (cases "neutral_block param temperature segments A")
     (simp add: calculateInteractionMatrix_def)

lemma four_segments_ok [simp]: "neutral_block_ok four_segments"
  by (simp add: neutral_block_ok_def parallel_vectors_def four_segments_def
      UpperBoundIndexForNeutralComponents_def size_segments_def)

lemma four_segments_pair:
  "neutral_pair four_segments i j \<longleftrightarrow> 0 \<le> i \<and> i \<le> j \<and> j < 4"
  by (auto simp add: neutral_pair_def four_segments_def UpperBoundIndexForNeutralComponents_def)

lemma four_segments_index [simp]:
  "segment_index four_segments 0" "segment_index four_segments 1"
  "segment_index four_segments 2" "segment_index four_segments 3"
  by (simp_all add: segment_index_def four_segments_def size_segments_def)

lemma four_segments_parallel [simp]: "parallel_vectors four_segments"
  by (simp add: parallel_vectors_def four_segments_def)

lemma four_segments_at [simp]:
  "sigma_at four_segments 0 = - 0.03" "sigma_at four_segments 1 = - 0.02"
  "sigma_at four_segments 2 = 0.02" "sigma_at four_segments 3 = 0.03"
  "hbType_at four_segments 0 = 2" "hbType_at four_segments 1 = 1"
  "hbType_at four_segments 2 = 1" "hbType_at four_segments 3 = 2"
  by (simp_all add: sigma_at_def hbType_at_def four_segments_def)

lemma four_segments_sorted: "sort_segments four_segments = Some (Inr four_segments)"
  by code_simp

text \<open>
  Claim C5, amended. For a pair of the neutral block with \<open>sigma_i = -0.02\<close>,
  \<open>sigma_j = 0.02\<close>, \<open>SigmaHB = 0.0084\<close>, \<open>hbType_i = 1\<close>, \<open>hbType_j = 2\<close> and positive \<open>Aeff\<close>,
  \<open>CHB\<close> and \<open>CHB_T\<close>, the hydrogen-bond term added to the misfit value is
  \<open>Aeff*CHB_T*(sigma_j - SigmaHB)*(sigma_i + SigmaHB)\<close>, and it is strictly negative: the
  first factor in parentheses is positive and the second negative.
\<close>

theorem hydrogen_bond_example_value:
  assumes ok: "neutral_block_ok segments" and np: "neutral_pair segments i j"
    and run: "neutral_block param temperature segments A_int = (A', err)"
    and si: "sigma_at segments i = - 0.02" and sj: "sigma_at segments j = 0.02"
    and shb: "SigmaHB param = 0.0084"
    and hi: "hbType_at segments i = 1" and hj: "hbType_at segments j = 2"
    and pos: "0 < Aeff param" "0 < CHB param" "0 < CHB_T param temperature"
  shows "pair_energy param temperature segments i j =
           Inr (misfit_term param segments i j
                + Aeff param * CHB_T param temperature
                    * (sigma_at segments j - SigmaHB param) * (sigma_at segments i + SigmaHB param)) \<and>
         (err = None \<longrightarrow>
            A' (j, i) = misfit_term param segments i j
                + Aeff param * CHB_T param temperature
                    * (sigma_at segments j - SigmaHB param) * (sigma_at segments i + SigmaHB param)) \<and>
         Aeff param * CHB_T param temperature
           * (sigma_at segments j - SigmaHB param) * (sigma_at segments i + SigmaHB param) < 0"
proof -
  let ?hb = "Aeff param * CHB_T param temperature
           * (sigma_at segments j - SigmaHB param) * (sigma_at segments i + SigmaHB param)"
  have par: "parallel_vectors segments" using ok by (simp add: neutral_block_ok_def)
  have sign: "hb_sign param segments i j" by (simp add: hb_sign_def si sj shb)
  have v: "pair_energy param temperature segments i j = Inr (misfit_term param segments i j + ?hb)"
    unfolding pair_energy_value [OF par neutral_pair_index [OF ok np]]
    using sign hi hj by (simp add: hb_term_def CHB_T_closed)
  have w: "err = None \<longrightarrow> A' (j, i) = misfit_term param segments i j + ?hb"
    using neutral_block_written [of param temperature segments A_int A' i j] run np v by auto
  have "0 < Aeff param * CHB_T param temperature" using pos by simp
  moreover have "(sigma_at segments j - SigmaHB param) * (sigma_at segments i + SigmaHB param) < 0"
    by (simp add: si sj shb)
  ultimately have "Aeff param * CHB_T param temperature
      * ((sigma_at segments j - SigmaHB param) * (sigma_at segments i + SigmaHB param)) < 0"
    by (rule mult_pos_neg)
  then have neg: "?hb < 0" by (simp add: mult.assoc)
  from v w neg show ?thesis by (intro conjI)
qed

text \<open>
  Claim C5, as stated, fails: with \<open>Aeff = CHB = 1\<close> and \<open>CHBT = 0\<close> (so \<open>CHB_T = 3.67e7\<close>) the
  term added for the pair is \<open>-4938.352\<close>, not a positive number.
\<close>

theorem hydrogen_bond_example_counterexample:
  "0 < Aeff (example_param 0.0084 0) \<and> 0 < CHB (example_param 0.0084 0) \<and>
   0 < CHB_T (example_param 0.0084 0) 298.15 \<and>
   neutral_pair (two_segments (- 0.02) 0.02 1 2) 0 1 \<and>
   pair_energy (example_param 0.0084 0) 298.15 (two_segments (- 0.02) 0.02 1 2) 0 1 =
     Inr (misfit_term (example_param 0.0084 0) (two_segments (- 0.02) 0.02 1 2) 0 1
          + hb_term (example_param 0.0084 0) 298.15 (two_segments (- 0.02) 0.02 1 2) 0 1) \<and>
   hb_term (example_param 0.0084 0) 298.15 (two_segments (- 0.02) 0.02 1 2) 0 1 = - 617294 / 125 \<and>
   \<not> 0 < hb_term (example_param 0.0084 0) 298.15 (two_segments (- 0.02) 0.02 1 2) 0 1"
  by (simp add: two_segments_pair pair_energy_value hb_sign_def hb_term_def CHB_T_closed
      CHB_T_closed_def example_param_def)

theorem hydrogen_bond_example_witness:
  "neutral_block_ok (two_segments (- 0.02) 0.02 1 2) \<and>
   neutral_pair (two_segments (- 0.02) 0.02 1 2) 0 1 \<and>
   sigma_at (two_segments (- 0.02) 0.02 1 2) 0 = - 0.02 \<and>
   sigma_at (two_segments (- 0.02) 0.02 1 2) 1 = 0.02 \<and>
   SigmaHB (example_param 0.0084 0) = 0.0084 \<and>
   hbType_at (two_segments (- 0.02) 0.02 1 2) 0 = 1 \<and>
   hbType_at (two_segments (- 0.02) 0.02 1 2) 1 = 2 \<and>
   0 < Aeff (example_param 0.0084 0) \<and> 0 < CHB (example_param 0.0084 0) \<and>
   0 < CHB_T (example_param 0.0084 0) 298.15 \<and>
   Aeff (example_param 0.0084 0) * CHB_T (example_param 0.0084 0) 298.15
     * (sigma_at (two_segments (- 0.02) 0.02 1 2) 1 - SigmaHB (example_param 0.0084 0))
     * (sigma_at (two_segments (- 0.02) 0.02 1 2) 0 + SigmaHB (example_param 0.0084 0)) < 0"
proof -
  let ?s = "two_segments (- 0.02) 0.02 1 2" and ?p = "example_param 0.0084 0"
  have ok: "neutral_block_ok ?s" by simp
  have np: "neutral_pair ?s 0 1" by (simp add: two_segments_pair)
  have run: "neutral_block ?p 298.15 ?s zero_matrix =
      (fst (neutral_block ?p 298.15 ?s zero_matrix), snd (neutral_block ?p 298.15 ?s zero_matrix))" by simp
  have si: "sigma_at ?s 0 = - 0.02" and sj: "sigma_at ?s 1 = 0.02" by simp_all
  have shb: "SigmaHB ?p = 0.0084" by (simp add: example_param_def)
  have hi: "hbType_at ?s 0 = 1" and hj: "hbType_at ?s 1 = 2" by simp_all
  have pos: "0 < Aeff ?p" "0 < CHB ?p" "0 < CHB_T ?p 298.15"
    by (simp_all add: example_param_def CHB_T_def)
  from hydrogen_bond_example_value [OF ok np run si sj shb hi hj pos]
  have "Aeff ?p * CHB_T ?p 298.15 * (sigma_at ?s 1 - SigmaHB ?p) * (sigma_at ?s 0 + SigmaHB ?p) < 0"
    by blast
  with ok np si sj shb hi hj pos show ?thesis by (intro conjI)
qed

lemma calculateInteractionMatrix_returns:
  assumes nb: "snd (neutral_block param temperature segments A) = None"
    and sw: "sw_useSegmentReferenceStateForInteractionMatrix param = 1"
    and st: "sw_calculateContactStatisticsAndAdditionalProperties param > 0"
    and len: "numberOfPartialInteractionMatrices param \<le> int (length Ps)"
  shows "\<exists>A' Ps'. calculateInteractionMatrix segments A Ps param temperature = (A', Ps', None)"
proof -
  let ?n = "int (size_segments segments)"
  let ?hs = "[0..numberOfPartialInteractionMatrices param - 1]"
  have b: "\<forall>h\<in>set ?hs. 0 \<le> h \<and> h < int (length Ps)" using len by auto
  have 1: "partial_reference_pass ?n ?hs Ps = Inr (on_matrices (reference_pass ?n) (set ?hs) Ps)"
    using b by (intro partial_reference_pass_ok) simp_all
  have 2: "partial_zero_diagonal ?n ?hs (on_matrices (reference_pass ?n) (set ?hs) Ps) =
      Inr (on_matrices (zero_diagonal ?n) (set ?hs) (on_matrices (reference_pass ?n) (set ?hs) Ps))"
    using b by (intro partial_zero_diagonal_ok) simp_all
  show ?thesis
    using nb sw st
    by (cases "neutral_block param temperature segments A")
       (simp add: calculateInteractionMatrix_def Let_def 1 2 del: set_upto)
qed

lemma neutral_block_completes:
  assumes ok: "neutral_block_ok segments" and s: "0 \<le> SigmaHB param"
    and no: "\<And>i j. neutral_pair segments i j \<Longrightarrow> \<not> hb_swapped param segments i j"
  shows "snd (neutral_block param temperature segments A) = None"
proof (rule neutral_block_no_error)
  fix i j assume np: "neutral_pair segments i j"
  have par: "parallel_vectors segments" using ok by (simp add: neutral_block_ok_def)
  show "\<exists>v. pair_energy param temperature segments i j = Inr v"
    using no [OF np] by (simp add: pair_energy_hb [OF par neutral_pair_index [OF ok np] s])
qed

theorem reference_state_renormalization_witness:
  "sw_useSegmentReferenceStateForInteractionMatrix (example_param 0.0084 1) = 1 \<and>
   snd (snd (calculateInteractionMatrix (two_segments (- 0.02) 0.02 0 0) zero_matrix [ones_matrix]
               (example_param 0.0084 1) 298.15)) = None \<and>
   fst (calculateInteractionMatrix (two_segments (- 0.02) 0.02 0 0) zero_matrix [ones_matrix]
               (example_param 0.0084 1) 298.15) (1, 0) =
     fst (neutral_block (example_param 0.0084 1) 298.15 (two_segments (- 0.02) 0.02 0 0) zero_matrix) (1, 0)
       - 0.5 * (fst (neutral_block (example_param 0.0084 1) 298.15 (two_segments (- 0.02) 0.02 0 0) zero_matrix) (0, 0)
              + fst (neutral_block (example_param 0.0084 1) 298.15 (two_segments (- 0.02) 0.02 0 0) zero_matrix) (1, 1)) \<and>
   fst (calculateInteractionMatrix (two_segments (- 0.02) 0.02 0 0) zero_matrix [ones_matrix]
               (example_param 0.0084 1) 298.15) (1, 1) = 0 \<and>
   (fst (snd (calculateInteractionMatrix (two_segments (- 0.02) 0.02 0 0) zero_matrix [ones_matrix]
               (example_param 0.0084 1) 298.15)) ! 0) (1, 0) = 0"
proof -
  let ?s = "two_segments (- 0.02) 0.02 0 0" and ?p = "example_param 0.0084 1"
  let ?c = "calculateInteractionMatrix ?s zero_matrix [ones_matrix] ?p 298.15"
  have sw: "sw_useSegmentReferenceStateForInteractionMatrix ?p = 1" by (simp add: example_param_def)
  have st: "sw_calculateContactStatisticsAndAdditionalProperties ?p > 0" by (simp add: example_param_def)
  have nP: "numberOfPartialInteractionMatrices ?p = 1" by (simp add: example_param_def)
  have n: "int (size_segments ?s) = 2" by simp
  have nb: "snd (neutral_block ?p 298.15 ?s zero_matrix) = None"
    by (rule neutral_block_completes)
       (simp_all add: example_param_def hb_swapped_def two_segments_pair, auto)
  have len: "numberOfPartialInteractionMatrices ?p \<le> int (length [ones_matrix])"
    by (simp add: example_param_def)
  from calculateInteractionMatrix_returns [OF nb sw st len]
  obtain A' Ps' where "?c = (A', Ps', None)" by blast
  then have none: "snd (snd ?c) = None" by simp
  then have run: "?c = (fst ?c, fst (snd ?c), None)" by (simp add: prod_eq_iff)
  note t = reference_state_renormalization [OF sw run]
  have c1: "0 \<le> (0::int) \<and> (0::int) < 1 \<and> 1 < int (size_segments ?s)"
    unfolding two_segments_size by simp
  have c2: "0 \<le> (1::int) \<and> 1 < int (size_segments ?s)"
    unfolding two_segments_size by simp
  have c3: "0 \<le> (0::int) \<and> 0 < numberOfPartialInteractionMatrices ?p \<and>
            0 \<le> (0::int) \<and> (0::int) < 1 \<and> 1 < int (size_segments ?s)"
    unfolding two_segments_size by (simp add: example_param_def)
  from t have t1: "\<forall>i j. 0 \<le> i \<and> i < j \<and> j < int (size_segments ?s) \<longrightarrow>
            fst ?c (j, i) = fst (neutral_block ?p 298.15 ?s zero_matrix) (j, i)
              - 0.5 * (fst (neutral_block ?p 298.15 ?s zero_matrix) (i, i)
                       + fst (neutral_block ?p 298.15 ?s zero_matrix) (j, j))"
    by (rule conjunct1)
  from conjunct1 [OF conjunct2 [OF t]]
  have t2: "\<forall>i. 0 \<le> i \<and> i < int (size_segments ?s) \<longrightarrow> fst ?c (i, i) = 0" .
  from conjunct1 [OF mp [OF conjunct2 [OF conjunct2 [OF t]] st]] have t3: "\<forall>h i j. 0 \<le> h \<and> h < numberOfPartialInteractionMatrices ?p \<and>
                 0 \<le> i \<and> i < j \<and> j < int (size_segments ?s) \<longrightarrow>
               nat h < length [ones_matrix] \<and> length (fst (snd ?c)) = length [ones_matrix] \<and>
               (fst (snd ?c) ! nat h) (j, i) = ([ones_matrix] ! nat h) (j, i)
                 - 0.5 * (([ones_matrix] ! nat h) (i, i) + ([ones_matrix] ! nat h) (j, j))"
    .
  have 1: "fst ?c (1, 0) = fst (neutral_block ?p 298.15 ?s zero_matrix) (1, 0)
       - 0.5 * (fst (neutral_block ?p 298.15 ?s zero_matrix) (0, 0)
              + fst (neutral_block ?p 298.15 ?s zero_matrix) (1, 1))"
    using t1 [rule_format, OF c1] .
  have 2: "fst ?c (1, 1) = 0" using t2 [rule_format, OF c2] .
  have 3: "(fst (snd ?c) ! 0) (1, 0) = 0" using t3 [rule_format, OF c3] by (simp add: ones_matrix_def)
  from sw none 1 2 3 show ?thesis by (intro conjI)
qed

theorem neutral_block_misfit_entries_witness:
  "neutral_block_ok (two_segments (- 0.02) 0.02 1 2) \<and>
   sw_misfit (example_param 0.0084 0) = 2 \<and>
   neutral_pair (two_segments (- 0.02) 0.02 1 2) 1 1 \<and>
   \<not> hb_branch_fires (example_param 0.0084 0) (two_segments (- 0.02) 0.02 1 2) 1 1 \<and>
   write_reached (example_param 0.0084 0) (two_segments (- 0.02) 0.02 1 2) 1 1 \<and>
   fst (neutral_block (example_param 0.0084 0) 298.15 (two_segments (- 0.02) 0.02 1 2) zero_matrix)
     (1, 1) = 140896 / 25 \<and>
   \<not> neutral_pair (two_segments (- 0.02) 0.02 1 2) 0 2 \<and>
   fst (neutral_block (example_param 0.0084 0) 298.15 (two_segments (- 0.02) 0.02 1 2) zero_matrix)
     (2, 0) = zero_matrix (2, 0) \<and>
   snd (neutral_block (example_param 0.0084 0) 298.15 (two_segments (- 0.02) 0.02 1 2) zero_matrix)
     = None"
proof -
  let ?s = "two_segments (- 0.02) 0.02 1 2" and ?p = "example_param 0.0084 0"
  let ?r = "neutral_block ?p 298.15 ?s zero_matrix"
  have ok: "neutral_block_ok ?s" by simp
  have sw: "sw_misfit ?p = 0 \<or> sw_misfit ?p = 1 \<or> sw_misfit ?p = 2" and sw2: "sw_misfit ?p = 2"
    by (simp_all add: example_param_def)
  have run: "?r = (fst ?r, snd ?r)" by simp
  have np: "neutral_pair ?s 1 1" and out: "\<not> neutral_pair ?s 0 2" by (simp_all add: two_segments_pair)
  have nf: "\<not> hb_branch_fires ?p ?s 1 1" by (simp add: hb_branch_fires_def)
  have nr: "\<not> hb_raises ?p ?s i j" if "neutral_pair ?s i j" for i j
    using that by (auto simp add: two_segments_pair hb_raises_def hb_sign_def example_param_def)
  have reach: "write_reached ?p ?s 1 1" using nr by (simp add: write_reached_def)
  have val: "misfit_claimed ?p ?s 1 1 = 140896 / 25"
    by (simp add: misfit_claimed_def misfit_base_def misfit_correction_def sigmaTrans_at_def
        sigma_at_def two_segments_def example_param_def power2_eq_square)
  note t = neutral_block_misfit_entries [OF ok sw run]
  have c: "neutral_pair ?s 1 1 \<and> \<not> hb_branch_fires ?p ?s 1 1" using np nf by simp
  have "fst ?r (1, 1) = misfit_claimed ?p ?s 1 1"
    using conjunct1 [OF conjunct2 [OF conjunct1 [OF t, rule_format, OF c]]] reach by (rule mp)
  then have 1: "fst ?r (1, 1) = 140896 / 25" by (simp only: val)
  have 2: "fst ?r (2, 0) = zero_matrix (2, 0)"
    using conjunct1 [OF conjunct2 [OF t], rule_format, OF out] .
  have 3: "snd ?r = None"
    using conjunct1 [OF conjunct2 [OF conjunct2 [OF t]]] nr by simp
  from ok sw2 np nf reach 1 out 2 3 show ?thesis by (intro conjI)
qed

text \<open>
  Claim C2, as stated, fails for a pair visited after a pair that throws: with
  \<open>sigma = [-0.02, 0.02]\<close>, classes \<open>[2, 1]\<close> and \<open>SigmaHB = 0.0084\<close> the pair \<open>(0, 1)\<close> throws; for
  the pair \<open>(1, 1)\<close> no hydrogen-bond branch fires and the claimed value is \<open>5635.84\<close>, but
  \<^verbatim>\<open>A_int(1, 1)\<close> is never written and keeps its initial value 0.
\<close>

theorem misfit_entry_after_exception_counterexample:
  "neutral_pair (two_segments (- 0.02) 0.02 2 1) 1 1 \<and>
   \<not> hb_branch_fires (example_param 0.0084 0) (two_segments (- 0.02) 0.02 2 1) 1 1 \<and>
   misfit_claimed (example_param 0.0084 0) (two_segments (- 0.02) 0.02 2 1) 1 1 = 140896 / 25 \<and>
   fst (calculateInteractionMatrix (two_segments (- 0.02) 0.02 2 1) zero_matrix []
          (example_param 0.0084 0) 298.15) (1, 1) = 0 \<and>
   snd (snd (calculateInteractionMatrix (two_segments (- 0.02) 0.02 2 1) zero_matrix []
          (example_param 0.0084 0) 298.15)) =
     Some (RuntimeError
       ''This should not happen. Wrong assumption calculating interaction matrix. 1'')"
proof -
  let ?s = "two_segments (- 0.02) 0.02 2 1" and ?p = "example_param 0.0084 0"
  let ?r = "neutral_block ?p 298.15 ?s zero_matrix"
  let ?e = "RuntimeError
       ''This should not happen. Wrong assumption calculating interaction matrix. 1''"
  have ok: "neutral_block_ok ?s" by simp
  have np: "neutral_pair ?s 1 1" and np01: "neutral_pair ?s 0 1" by (simp_all add: two_segments_pair)
  have nf: "\<not> hb_branch_fires ?p ?s 1 1" by (simp add: hb_branch_fires_def hb_sign_def example_param_def)
  have val: "misfit_claimed ?p ?s 1 1 = 140896 / 25"
    by (simp add: misfit_claimed_def misfit_base_def misfit_correction_def sigmaTrans_at_def
        sigma_at_def two_segments_def example_param_def power2_eq_square)
  have e01: "pair_energy ?p 298.15 ?s 0 1 = Inl ?e"
    by (simp add: pair_energy_value hb_sign_def example_param_def)
  have r01: "hb_raises ?p ?s 0 1" by (simp add: hb_raises_def hb_sign_def example_param_def)
  have err: "snd ?r = Some ?e"
    using ok np01 e01
  proof (rule neutral_block_first_error)
    fix i' j' assume "neutral_pair ?s i' j'" "i' < 0 \<or> i' = 0 \<and> j' < 1"
    then have "i' = 0 \<and> j' = 0" by (auto simp add: two_segments_pair)
    then show "\<not> hb_raises ?p ?s i' j'" by (simp add: hb_raises_def hb_sign_def example_param_def)
  qed
  have c: "calculateInteractionMatrix ?s zero_matrix [] ?p 298.15 = (fst ?r, [], Some ?e)"
    using err by (rule calculateInteractionMatrix_raised)
  have nreach: "\<not> write_reached ?p ?s 1 1"
    using np01 r01 by (rule not_write_reached) simp
  have run: "?r = (fst ?r, snd ?r)" by simp
  have z: "fst ?r (1, 1) = zero_matrix (1, 1)"
    using ok run nreach by (rule neutral_block_not_reached)
  have 1: "fst (calculateInteractionMatrix ?s zero_matrix [] ?p 298.15) (1, 1) = 0"
    unfolding c fst_conv z by (simp add: zero_matrix_def)
  have 2: "snd (snd (calculateInteractionMatrix ?s zero_matrix [] ?p 298.15)) = Some ?e"
    unfolding c by simp
  from np nf val 1 2 show ?thesis by (intro conjI)
qed

theorem neutral_block_hydrogen_bond_witness:
  "neutral_block_ok (two_segments (- 0.02) 0.02 1 2) \<and>
   0 \<le> SigmaHB (example_param 0.0084 0) \<and>
   neutral_pair (two_segments (- 0.02) 0.02 1 2) 0 1 \<and>
   write_reached (example_param 0.0084 0) (two_segments (- 0.02) 0.02 1 2) 0 1 \<and>
   hb_donor_acceptor (example_param 0.0084 0) (two_segments (- 0.02) 0.02 1 2) 0 1 \<and>
   fst (neutral_block (example_param 0.0084 0) 298.15 (two_segments (- 0.02) 0.02 1 2) zero_matrix)
     (1, 0) =
     misfit_term (example_param 0.0084 0) (two_segments (- 0.02) 0.02 1 2) 0 1
       + hb_amount (example_param 0.0084 0) 298.15 (two_segments (- 0.02) 0.02 1 2) 0 1 \<and>
   misfit_term (example_param 0.0084 0) (two_segments (- 0.02) 0.02 1 2) 0 1 = 0 \<and>
   hb_amount (example_param 0.0084 0) 298.15 (two_segments (- 0.02) 0.02 1 2) 0 1 = - 617294 / 125 \<and>
   snd (neutral_block (example_param 0.0084 0) 298.15 (two_segments (- 0.02) 0.02 1 2) zero_matrix)
     = None"
proof -
  let ?s = "two_segments (- 0.02) 0.02 1 2" and ?p = "example_param 0.0084 0"
  let ?r = "neutral_block ?p 298.15 ?s zero_matrix"
  have ok: "neutral_block_ok ?s" by simp
  have s: "0 \<le> SigmaHB ?p" by (simp add: example_param_def)
  have run: "?r = (fst ?r, snd ?r)" by simp
  have np: "neutral_pair ?s 0 1" by (simp add: two_segments_pair)
  have da: "hb_donor_acceptor ?p ?s 0 1"
    by (simp add: hb_donor_acceptor_def hb_sign_def example_param_def)
  have nr: "\<not> hb_raises ?p ?s i j" if "neutral_pair ?s i j" for i j
    using that by (auto simp add: two_segments_pair hb_raises_def hb_sign_def example_param_def)
  have ns: "\<not> hb_swapped ?p ?s i j" if "neutral_pair ?s i j" for i j
    using nr [OF that] hb_raises_swapped [OF s, of ?s i j] by simp
  have reach: "write_reached ?p ?s 0 1" using nr by (simp add: write_reached_def)
  have m: "misfit_term ?p ?s 0 1 = 0"
    by (simp add: misfit_term_def misfit_base_def misfit_correction_def example_param_def)
  have h: "hb_amount ?p 298.15 ?s 0 1 = - 617294 / 125"
    by (simp add: hb_amount_def hb_sign_def hb_term_def CHB_T_closed_def example_param_def)
  note t = neutral_block_hydrogen_bond [OF ok s run np]
  have 1: "fst ?r (1, 0) = misfit_term ?p ?s 0 1 + hb_amount ?p 298.15 ?s 0 1"
    using conjunct1 [OF mp [OF conjunct1 [OF t] reach]] da by (rule mp)
  have 2: "snd ?r = None"
    using conjunct1 [OF conjunct2 [OF conjunct2 [OF conjunct2 [OF t]]]] ns by simp
  from ok s np reach da 1 m h 2 show ?thesis by (intro conjI)
qed

text \<open>
  Claim C3, as stated, fails for a pair visited after a pair that throws: with
  \<open>sigma = [-0.03, -0.02, 0.02, 0.03]\<close>, classes \<open>[2, 1, 1, 2]\<close> and \<open>SigmaHB = 0.0084\<close> the pair
  \<open>(1, 3)\<close> satisfies the first condition of the claim (\<open>sigma_1 < -SigmaHB\<close>,
  \<open>sigma_3 > SigmaHB\<close>, classes 1 and 2), but the pair \<open>(0, 2)\<close>, visited before, has the
  classes swapped and throws: nothing is added to \<^verbatim>\<open>A_int(3, 1)\<close>, which keeps its initial
  value 0.
\<close>

theorem hydrogen_bond_after_exception_counterexample:
  "0 \<le> SigmaHB (example_param 0.0084 0) \<and>
   neutral_pair four_segments 1 3 \<and>
   sigma_at four_segments 1 < - SigmaHB (example_param 0.0084 0) \<and>
   sigma_at four_segments 3 > SigmaHB (example_param 0.0084 0) \<and>
   hbType_at four_segments 1 = 1 \<and> hbType_at four_segments 3 = 2 \<and>
   hb_donor_acceptor (example_param 0.0084 0) four_segments 1 3 \<and>
   misfit_term (example_param 0.0084 0) four_segments 1 3 = 8806 / 25 \<and>
   hb_amount (example_param 0.0084 0) 298.15 four_segments 1 3 = - 1149444 / 125 \<and>
   fst (calculateInteractionMatrix four_segments zero_matrix []
          (example_param 0.0084 0) 298.15) (3, 1) = 0 \<and>
   snd (snd (calculateInteractionMatrix four_segments zero_matrix []
          (example_param 0.0084 0) 298.15)) =
     Some (RuntimeError
       ''This should not happen. Wrong assumption calculating interaction matrix. 1'')"
proof -
  let ?s = "four_segments" and ?p = "example_param 0.0084 0"
  let ?r = "neutral_block ?p 298.15 ?s zero_matrix"
  let ?e = "RuntimeError
       ''This should not happen. Wrong assumption calculating interaction matrix. 1''"
  have ok: "neutral_block_ok ?s" by simp
  have s: "0 \<le> SigmaHB ?p" by (simp add: example_param_def)
  have np: "neutral_pair ?s 1 3" and np02: "neutral_pair ?s 0 2" by (simp_all add: four_segments_pair)
  have c1: "sigma_at ?s 1 < - SigmaHB ?p" and c2: "sigma_at ?s 3 > SigmaHB ?p"
    by (simp_all add: example_param_def)
  have h1: "hbType_at ?s 1 = 1" and h3: "hbType_at ?s 3 = 2" by simp_all
  have da: "hb_donor_acceptor ?p ?s 1 3"
    by (simp add: hb_donor_acceptor_def hb_sign_def example_param_def)
  have val: "misfit_term ?p ?s 1 3 = 8806 / 25"
    by (simp add: misfit_term_def misfit_base_def misfit_correction_def sigmaTrans_at_def
        example_param_def four_segments_def sigma_at_def power2_eq_square)
  have amount: "hb_amount ?p 298.15 ?s 1 3 = - 1149444 / 125"
    by (simp add: hb_amount_def hb_sign_def hb_term_def CHB_T_closed_def example_param_def)
  have e02: "pair_energy ?p 298.15 ?s 0 2 = Inl ?e"
    by (simp add: pair_energy_value hb_sign_def example_param_def)
  have r02: "hb_raises ?p ?s 0 2" by (simp add: hb_raises_def hb_sign_def example_param_def)
  have err: "snd ?r = Some ?e"
    using ok np02 e02
  proof (rule neutral_block_first_error)
    fix i' j' assume "neutral_pair ?s i' j'" "i' < 0 \<or> i' = 0 \<and> j' < 2"
    then have "i' = 0 \<and> 0 \<le> j' \<and> j' < 2" by (auto simp add: four_segments_pair)
    then consider "i' = 0 \<and> j' = 0" | "i' = 0 \<and> j' = 1" by fastforce
    then show "\<not> hb_raises ?p ?s i' j'"
      by cases (simp_all add: hb_raises_def hb_sign_def example_param_def)
  qed
  have c: "calculateInteractionMatrix ?s zero_matrix [] ?p 298.15 = (fst ?r, [], Some ?e)"
    using err by (rule calculateInteractionMatrix_raised)
  have nreach: "\<not> write_reached ?p ?s 1 3"
    using np02 r02 by (rule not_write_reached) simp
  have run: "?r = (fst ?r, snd ?r)" by simp
  have z: "fst ?r (3, 1) = zero_matrix (3, 1)"
    using ok run nreach by (rule neutral_block_not_reached)
  have 1: "fst (calculateInteractionMatrix ?s zero_matrix [] ?p 298.15) (3, 1) = 0"
    unfolding c fst_conv z by (simp add: zero_matrix_def)
  have 2: "snd (snd (calculateInteractionMatrix ?s zero_matrix [] ?p 298.15)) = Some ?e"
    unfolding c by simp
  from s np c1 c2 h1 h3 da val amount 1 2 show ?thesis by (intro conjI)
qed

theorem wrong_orientation_raises_witness:
  "neutral_block_ok (two_segments (- 0.02) 0.02 2 1) \<and>
   0 \<le> SigmaHB (example_param 0.0084 0) \<and>
   neutral_pair (two_segments (- 0.02) 0.02 2 1) 0 1 \<and>
   hb_swapped (example_param 0.0084 0) (two_segments (- 0.02) 0.02 2 1) 0 1 \<and>
   (\<exists>msg. snd (snd (calculateInteractionMatrix (two_segments (- 0.02) 0.02 2 1) zero_matrix []
                       (example_param 0.0084 0) 298.15)) = Some (RuntimeError msg)) \<and>
   fst (calculateInteractionMatrix (two_segments (- 0.02) 0.02 2 1) zero_matrix []
          (example_param 0.0084 0) 298.15) (1, 0) = zero_matrix (1, 0)"
proof -
  let ?s = "two_segments (- 0.02) 0.02 2 1" and ?p = "example_param 0.0084 0"
  let ?c = "calculateInteractionMatrix ?s zero_matrix [] ?p 298.15"
  have ok: "neutral_block_ok ?s" by simp
  have s: "0 \<le> SigmaHB ?p" by (simp add: example_param_def)
  have run: "?c = (fst ?c, fst (snd ?c), snd (snd ?c))" by simp
  have np: "neutral_pair ?s 0 1" by (simp add: two_segments_pair)
  have sw: "hb_swapped ?p ?s 0 1" by (simp add: hb_swapped_def hb_sign_def example_param_def)
  note t = wrong_orientation_raises [OF ok s run]
  have ex: "\<exists>i j. neutral_pair ?s i j \<and> hb_swapped ?p ?s i j" using np sw by blast
  have 1: "\<exists>msg. snd (snd ?c) = Some (RuntimeError msg)"
    using iffD2 [OF conjunct1 [OF t] ex] .
  have c: "neutral_pair ?s 0 1 \<and> hb_swapped ?p ?s 0 1" using np sw by simp
  have 2: "fst ?c (1, 0) = zero_matrix (1, 0)"
    using conjunct2 [OF t, rule_format, OF c] .
  from ok s np sw 1 2 show ?thesis by (intro conjI)
qed

section \<open>The collections that reach the matrix builder\<close>

lemma distinct_gather:
  assumes "distinct xs" "perm_on p (length xs)"
  shows "distinct (gather xs p)"
proof -
  have "inj_on (\<lambda>k. xs ! nat (p ! k)) (set [0..<length xs])"
  proof (rule inj_onI)
    fix k l assume kl: "k \<in> set [0..<length xs]" "l \<in> set [0..<length xs]"
      and eq: "xs ! nat (p ! k) = xs ! nat (p ! l)"
    then have k: "k < length xs" and l: "l < length xs" by simp_all
    have "perm_fun p k < length xs" "perm_fun p l < length xs"
      using perm_fun_less [OF assms(2)] k l by simp_all
    with eq assms(1) have "perm_fun p k = perm_fun p l"
      by (simp add: perm_fun_def nth_eq_iff_index_eq)
    with assms(2) k l show "k = l" by (rule perm_fun_inj)
  qed
  then show ?thesis by (simp add: gather_def distinct_map)
qed

lemma segment_keys_permuted:
  assumes "parallel_vectors c" and p: "perm_on p (size_segments c)"
  shows "segment_keys (permuted c p) = gather (segment_keys c) p"
proof (rule nth_equalityI)
  show "length (segment_keys (permuted c p)) = length (gather (segment_keys c) p)"
    using assms by (simp add: segment_keys_def permuted_def parallel_vectors_def)
next
  fix k assume "k < length (segment_keys (permuted c p))"
  then have k: "k < length (SegmentTypeHBtype c)"
    using assms by (simp add: segment_keys_def permuted_def parallel_vectors_def)
  moreover have "nat (p ! k) < length (SegmentTypeHBtype c)"
    using perm_fun_less [OF p, of k] k by (simp add: perm_fun_def size_segments_def)
  ultimately show "segment_keys (permuted c p) ! k = gather (segment_keys c) p ! k"
    using assms(1) by (simp add: segment_keys_def permuted_def parallel_vectors_def)
qed

lemma registry_inv_permuted:
  assumes inv: "registry_inv n c" and p: "perm_on p (size_segments c)"
  shows "registry_inv n (permuted c p)"
proof -
  from inv have par: "parallel_vectors c" and d: "distinct (segment_keys c)"
    and rows: "list_all (\<lambda>row. length row = n) (SegmentTypeAreas c)"
    and tmpl: "SegmentTypeAreasRowTemplate c = replicate n 0"
    by (simp_all add: registry_inv_def)
  have lk: "length (segment_keys c) = size_segments c"
    using length_segment_keys [OF par] by (simp add: size_segments_def)
  have lA: "length (SegmentTypeAreas c) = size_segments c"
    using par by (simp add: parallel_vectors_def size_segments_def)
  have "distinct (segment_keys (permuted c p))"
    unfolding segment_keys_permuted [OF par p] using d p lk by (intro distinct_gather) simp_all
  moreover have "set (gather (SegmentTypeAreas c) p) = set (SegmentTypeAreas c)"
    using p lA by (intro set_gather) simp
  then have "list_all (\<lambda>row. length row = n) (SegmentTypeAreas (permuted c p))"
    using rows by (simp add: list_all_iff permuted_def)
  moreover have "parallel_vectors (permuted c p)"
    using par by (simp add: parallel_vectors_def permuted_def)
  moreover have "SegmentTypeAreasRowTemplate (permuted c p) = replicate n 0"
    using tmpl by (simp add: permuted_def)
  ultimately show ?thesis by (simp add: registry_inv_def)
qed

lemma registry_inv_bounds_after: "registry_inv n c \<Longrightarrow> registry_inv n (bounds_after c)"
  by (simp add: registry_inv_def parallel_vectors_def segment_keys_def bounds_after_def Let_def)

lemma registry_inv_sort:
  assumes inv: "registry_inv n c" and ok: "sortable c" and ne: "SegmentTypeGroup c \<noteq> []"
    and s: "sort_segments c = Some (Inr c')"
  shows "registry_inv n c'"
proof -
  have "perm_on (sort_permutation c) (size_segments c)"
    unfolding sort_permutation_def by (rule perm_on_std_sort)
  with inv have "registry_inv n (bounds_after (permuted c (sort_permutation c)))"
    by (intro registry_inv_bounds_after registry_inv_permuted)
  with sort_sortable [OF ok ne] s show ?thesis by simp
qed

lemma writes_values:
  assumes "\<forall>x\<in>set xs. P x" "\<forall>w\<in>set W. P (snd w)"
  shows "\<forall>x\<in>set (writes W xs). P x"
  using assms
proof (induction W arbitrary: xs)
  case Nil
  then show ?case by simp
next
  case (Cons w W)
  obtain k v where w: "w = (k, v)" by (cases w)
  have "\<forall>x\<in>set (xs[k := v]). P x"
    using Cons.prems set_update_subset_insert [of xs k v] by (auto simp add: w)
  with Cons show ?case by (simp add: w)
qed

lemma lower_writes_values:
  "w \<in> set (lower_writes gs ks t) \<Longrightarrow> snd w \<in> int ` set ks"
  by (induction ks arbitrary: t) (auto split: if_splits)

lemma upper_writes_values:
  "w \<in> set (upper_writes gs ks t) \<Longrightarrow> snd w \<in> int ` set ks"
  by (induction ks arbitrary: t) (auto split: if_splits)

lemma bounds_after_range:
  assumes lo: "\<forall>x\<in>set (lowerBoundIndexForGroup c). 0 \<le> x \<and> x \<le> int (size_segments c)"
    and up: "\<forall>x\<in>set (upperBoundIndexForGroup c). 0 \<le> x \<and> x \<le> int (size_segments c)"
  shows "\<forall>x\<in>set (lowerBoundIndexForGroup (bounds_after c)). 0 \<le> x \<and> x \<le> int (size_segments c)"
    and "\<forall>x\<in>set (upperBoundIndexForGroup (bounds_after c)). 0 \<le> x \<and> x \<le> int (size_segments c)"
proof -
  let ?n = "size_segments c" and ?gs = "SegmentTypeGroup c"
  have "\<forall>w\<in>set (lower_writes ?gs [0..<?n] (- 1)). 0 \<le> snd w \<and> snd w \<le> int ?n"
  proof
    fix w assume "w \<in> set (lower_writes ?gs [0..<?n] (- 1))"
    then have "snd w \<in> int ` set [0..<?n]" by (rule lower_writes_values)
    then show "0 \<le> snd w \<and> snd w \<le> int ?n" by auto
  qed
  with lo have "\<forall>x\<in>set (writes (lower_writes ?gs [0..<?n] (- 1)) (lowerBoundIndexForGroup c)).
      0 \<le> x \<and> x \<le> int ?n"
    by (rule writes_values)
  then show "\<forall>x\<in>set (lowerBoundIndexForGroup (bounds_after c)). 0 \<le> x \<and> x \<le> int ?n"
    by (simp add: bounds_after_def Let_def)
  have "\<forall>w\<in>set (upper_writes ?gs [0..<?n] (- 1)). 0 \<le> snd w \<and> snd w \<le> int ?n"
  proof
    fix w assume "w \<in> set (upper_writes ?gs [0..<?n] (- 1))"
    then have "snd w \<in> int ` set [0..<?n]" by (rule upper_writes_values)
    then show "0 \<le> snd w \<and> snd w \<le> int ?n" by auto
  qed
  then have "\<forall>w\<in>set (upper_writes ?gs [0..<?n] (- 1) @ [(?gs ! (?n - 1), int ?n)]).
          0 \<le> snd w \<and> snd w \<le> int ?n"
    by simp
  with up have "\<forall>x\<in>set (writes (upper_writes ?gs [0..<?n] (- 1) @ [(?gs ! (?n - 1), int ?n)])
        (upperBoundIndexForGroup c)). 0 \<le> x \<and> x \<le> int ?n"
    by (rule writes_values)
  then show "\<forall>x\<in>set (upperBoundIndexForGroup (bounds_after c)). 0 \<le> x \<and> x \<le> int ?n"
    by (simp add: bounds_after_def Let_def del: writes_append)
qed

lemma sorted_fresh_neutral_block_ok:
  assumes fresh: "constructed_with n c" and ne: "SegmentTypeGroup c \<noteq> []"
    and gs: "list_all (\<lambda>g. g \<le> 6) (SegmentTypeGroup c)"
    and s: "sort_segments c = Some (Inr c')"
  shows "neutral_block_ok c'"
proof -
  let ?d = "permuted c (sort_permutation c)"
  from fresh have "registry_inv (nat n) c" by (rule constructed_with_inv)
  then have par: "parallel_vectors c" by (simp add: registry_inv_def)
  from fresh have f: "lowerBoundIndexForGroup c = replicate 7 0"
    "upperBoundIndexForGroup c = replicate 7 0" "numberOfSegmentsForGroup c = replicate 7 0"
    using constructed_with_fresh by blast+
  have ok: "sortable c" using par f gs by (simp add: sortable_def)
  have c': "c' = bounds_after ?d" using sort_sortable [OF ok ne] s by simp
  have lo: "\<forall>x\<in>set (lowerBoundIndexForGroup ?d). 0 \<le> x \<and> x \<le> int (size_segments ?d)"
    and up: "\<forall>x\<in>set (upperBoundIndexForGroup ?d). 0 \<le> x \<and> x \<le> int (size_segments ?d)"
    using f by (simp_all add: permuted_def)
  note r = bounds_after_range [OF lo up]
  have len: "length (lowerBoundIndexForGroup c') = 7" "length (upperBoundIndexForGroup c') = 7"
    using f by (simp_all add: c' bounds_after_def Let_def permuted_def del: writes_append)
  have sz: "size_segments c' = size_segments ?d"
    by (simp add: c' bounds_after_def Let_def size_segments_def)
  have "lowerBoundIndexForGroup c' ! 0 \<in> set (lowerBoundIndexForGroup c')"
    "upperBoundIndexForGroup c' ! 0 \<in> set (upperBoundIndexForGroup c')"
    "upperBoundIndexForGroup c' ! 1 \<in> set (upperBoundIndexForGroup c')"
    "upperBoundIndexForGroup c' ! 2 \<in> set (upperBoundIndexForGroup c')"
    using len by simp_all
  then have "0 \<le> lowerBoundIndexForGroup c' ! 0"
    "upperBoundIndexForGroup c' ! 0 \<le> int (size_segments c')"
    "upperBoundIndexForGroup c' ! 1 \<le> int (size_segments c')"
    "upperBoundIndexForGroup c' ! 2 \<le> int (size_segments c')"
    using r unfolding c' [symmetric] sz by blast+
  moreover have "parallel_vectors c'"
    using par by (simp add: c' bounds_after_def Let_def parallel_vectors_def permuted_def)
  ultimately show ?thesis
    by (simp add: neutral_block_ok_def UpperBoundIndexForNeutralComponents_def)
qed

end
